theory Spec2Isabelle
  imports Complex_Main "HOL-Library.Word" "HOL-Library.Sublist"
begin

section \<open>Matrix-multiplication kernels of examples/matmul/run.cpp\<close>

text \<open>
  The three kernels of \<^verbatim>\<open>run.cpp\<close> are WGSL compute shaders kept as text templates
  (\<^verbatim>\<open>kShaderMatmul1\<close>, \<^verbatim>\<open>kShaderMatmul2\<close>, \<^verbatim>\<open>kShaderMatmul3\<close>); the placeholders
  \<^verbatim>\<open>{{M}}\<close>, \<^verbatim>\<open>{{K}}\<close>, \<^verbatim>\<open>{{N}}\<close>, ... are replaced by decimal literals before the
  shader is compiled. Each kernel is embedded here as a function of those literals.

  \<^item> WGSL \<^verbatim>\<open>u32\<close> values are \<open>32 word\<close>: \<open>+\<close> and \<open>*\<close> wrap around, \<open>div\<close> and
    \<open>mod\<close> are the unsigned operations.
  \<^item> The storage buffers \<^verbatim>\<open>A\<close>, \<^verbatim>\<open>B\<close>, \<^verbatim>\<open>C\<close> are runtime-sized arrays, here lists;
    an access outside an array's extent is a dynamic error of WGSL and is a value
    \<open>Inl (OutOfBounds \<dots>)\<close> of the model.
  \<^item> The element type (\<^verbatim>\<open>{{precision}}\<close>, \<^verbatim>\<open>f32\<close> in the harness) is a type parameter
    with \<open>+\<close> and \<open>*\<close> (and \<open>0\<close> where a kernel writes it), of which no law is assumed: a
    stored value is stated as the accumulation the kernel performs, in program order,
    over whatever \<open>+\<close> and \<open>*\<close> the element type has.
  \<^item> What a lane stores to \<^verbatim>\<open>C\<close> is returned as the list of its stores, in program
    order, as pairs of index and value.
\<close>

type_synonym u32 = "32 word"

datatype buffer = BufA | BufB | BufC | BufTileA | BufTileB | BufRegs

datatype error = OutOfBounds buffer nat | DivisionByZero | NotRepresentable

type_synonym 'a stores = "(nat \<times> 'a) list"

definition load :: "buffer \<Rightarrow> 'a list \<Rightarrow> u32 \<Rightarrow> error + 'a" where
  "load b xs i = (if unat i < length xs then Inr (xs ! unat i) else Inl (OutOfBounds b (unat i)))"

definition store :: "buffer \<Rightarrow> nat \<Rightarrow> u32 \<Rightarrow> 'a \<Rightarrow> error + 'a stores" where
  "store b n i v = (if unat i < n then Inr [(unat i, v)] else Inl (OutOfBounds b (unat i)))"

text \<open>Arithmetic on \<^verbatim>\<open>u32\<close> that does not wrap around.\<close>

lemma u32_bound: "unat (x::u32) < 4294967296"
  using unsigned_less [of x, where ?'a = nat] by simp

lemma u32_add: "unat a + unat b < 4294967296 \<Longrightarrow> unat (a + b :: u32) = unat a + unat b"
  using unat_add_lem [of a b] by simp

lemma u32_mul: "unat a * unat b < 4294967296 \<Longrightarrow> unat (a * b :: u32) = unat a * unat b"
  using unat_mult_lem [of a b] by simp

lemma u32_succ:
  assumes "(k::u32) < K"
  shows "unat (k + 1) = Suc (unat k)"
proof -
  have "unat k < unat K" using assms by (simp add: word_less_nat_alt)
  moreover have "unat K < 4294967296" by (rule u32_bound)
  ultimately have "unat k + unat (1::u32) < 4294967296" by simp
  then have "unat (k + 1) = unat k + unat (1::u32)" by (rule u32_add)
  then show ?thesis by simp
qed

subsection \<open>Variant 1: the naive kernel (\<^verbatim>\<open>kShaderMatmul1\<close>)\<close>

text \<open>
  \<^verbatim>\<open>for (var k = 1u; k < K; k = k + 1u) { total += A[row * K + k] * B[col * K + k]; }\<close>
\<close>

function matmul1_loop ::
  "u32 \<Rightarrow> 'a::{plus,times} list \<Rightarrow> 'a list \<Rightarrow> u32 \<Rightarrow> u32 \<Rightarrow> u32 \<Rightarrow> 'a \<Rightarrow> error + 'a" where
  "matmul1_loop K A B row col k tot =
     (if k < K then
        (case load BufA A (row * K + k) of
           Inl e \<Rightarrow> Inl e
         | Inr a \<Rightarrow>
            (case load BufB B (col * K + k) of
               Inl e \<Rightarrow> Inl e
             | Inr b \<Rightarrow> matmul1_loop K A B row col (k + 1) (tot + a * b)))
      else Inr tot)"
  by pat_completeness auto

termination
  by (relation "measure (\<lambda>(K, A, B, row, col, k, tot). unat K - unat k)")
     (auto simp: u32_succ word_less_nat_alt)

declare matmul1_loop.simps [simp del]

text \<open>
  The body of \<^verbatim>\<open>main\<close>: \<open>nC\<close> is the extent of \<^verbatim>\<open>C\<close>, \<open>(row, col)\<close> is
  \<^verbatim>\<open>(globalID.x, globalID.y)\<close>.
\<close>

definition matmul1_main ::
  "u32 \<Rightarrow> u32 \<Rightarrow> u32 \<Rightarrow> 'a::{plus,times} list \<Rightarrow> 'a list \<Rightarrow> nat \<Rightarrow> u32 \<times> u32 \<Rightarrow> error + 'a stores" where
  "matmul1_main M K N A B nC gid =
     (let row = fst gid; col = snd gid in
      if row \<ge> M \<or> col \<ge> N then Inr []
      else
        (case load BufA A (row * K) of
           Inl e \<Rightarrow> Inl e
         | Inr a \<Rightarrow>
            (case load BufB B (col * K) of
               Inl e \<Rightarrow> Inl e
             | Inr b \<Rightarrow>
                (case matmul1_loop K A B row col 1 (a * b) of
                   Inl e \<Rightarrow> Inl e
                 | Inr tot \<Rightarrow> store BufC nC (row * N + col) tot))))"

subsection \<open>Variant 2: shared-memory tiling (\<^verbatim>\<open>kShaderMatmul2\<close>)\<close>

text \<open>
  The lanes of a workgroup share the tiles \<^verbatim>\<open>As\<close> and \<^verbatim>\<open>Bs\<close>, so the kernel is embedded for
  a whole workgroup. A \<^verbatim>\<open>workgroupBarrier()\<close> separates the program into phases; between two
  barriers every lane runs its part of the phase, here one lane after the other in the
  order of \<^verbatim>\<open>local_invocation_index\<close> (within a phase of this kernel no lane reads what
  another lane writes). The state of a workgroup is the pair of tiles and the list of the
  lanes' private \<^verbatim>\<open>total\<close>; a workgroup variable and a private variable start as zeros.
  An access outside a tile is an error like one outside a storage buffer.
\<close>

definition update :: "buffer \<Rightarrow> 'a list \<Rightarrow> u32 \<Rightarrow> 'a \<Rightarrow> error + 'a list" where
  "update b xs i v = (if unat i < length xs then Inr (xs[unat i := v]) else Inl (OutOfBounds b (unat i)))"

definition lanes :: "nat \<Rightarrow> u32 list" where
  "lanes n = map word_of_nat [0..<n]"

primrec for_lanes :: "('s \<Rightarrow> u32 \<Rightarrow> error + 's) \<Rightarrow> 's \<Rightarrow> u32 list \<Rightarrow> error + 's" where
  "for_lanes f s [] = Inr s"
| "for_lanes f s (l # ls) = (case f s l of Inl e \<Rightarrow> Inl e | Inr s' \<Rightarrow> for_lanes f s' ls)"

text \<open>
  The first phase of one iteration of the tile loop, for one lane:
  \<^verbatim>\<open>As[loadRow * T + loadCol] = A[aRow * K + aCol]; Bs[loadCol * T + loadRow] = B[bRow * K + bCol];\<close>
  The masked alternatives are comments in the template and not part of the kernel.
\<close>

definition matmul2_load ::
  "u32 \<Rightarrow> u32 \<Rightarrow> 'a list \<Rightarrow> 'a list \<Rightarrow> u32 \<times> u32 \<Rightarrow> u32 \<Rightarrow> 'a list \<times> 'a list \<Rightarrow> u32 \<Rightarrow>
   error + 'a list \<times> 'a list" where
  "matmul2_load K T A B groupID tile tiles localIdx =
     (let loadRow = localIdx div T; loadCol = localIdx mod T;
          aRow = fst groupID * T + loadRow; bRow = snd groupID * T + loadCol;
          aCol = tile * T + loadCol; bCol = tile * T + loadRow
      in case load BufA A (aRow * K + aCol) of
           Inl e \<Rightarrow> Inl e
         | Inr a \<Rightarrow>
        (case update BufTileA (fst tiles) (loadRow * T + loadCol) a of
           Inl e \<Rightarrow> Inl e
         | Inr As \<Rightarrow>
        (case load BufB B (bRow * K + bCol) of
           Inl e \<Rightarrow> Inl e
         | Inr b \<Rightarrow>
        (case update BufTileB (snd tiles) (loadCol * T + loadRow) b of
           Inl e \<Rightarrow> Inl e
         | Inr Bs \<Rightarrow> Inr (As, Bs)))))"

text \<open>\<^verbatim>\<open>for (var k = 0u; k < T; k = k + 1u) { total += As[loadRow * T + k] * Bs[loadCol * T + k]; }\<close>\<close>

function matmul2_dot ::
  "u32 \<Rightarrow> 'a::{plus,times} list \<Rightarrow> 'a list \<Rightarrow> u32 \<Rightarrow> u32 \<Rightarrow> u32 \<Rightarrow> 'a \<Rightarrow> error + 'a" where
  "matmul2_dot T As Bs loadRow loadCol k tot =
     (if k < T then
        (case load BufTileA As (loadRow * T + k) of
           Inl e \<Rightarrow> Inl e
         | Inr a \<Rightarrow>
            (case load BufTileB Bs (loadCol * T + k) of
               Inl e \<Rightarrow> Inl e
             | Inr b \<Rightarrow> matmul2_dot T As Bs loadRow loadCol (k + 1) (tot + a * b)))
      else Inr tot)"
  by pat_completeness auto
termination
  by (relation "measure (\<lambda>(T, As, Bs, loadRow, loadCol, k, tot). unat T - unat k)")
     (auto simp: u32_succ word_less_nat_alt)

declare matmul2_dot.simps [simp del]

text \<open>The second phase, for one lane: the loop above on the lane's \<^verbatim>\<open>total\<close>.\<close>

definition matmul2_accumulate ::
  "u32 \<Rightarrow> 'a::{plus,times} list \<times> 'a list \<Rightarrow> 'a list \<Rightarrow> u32 \<Rightarrow> error + 'a list" where
  "matmul2_accumulate T tiles totals localIdx =
     (case matmul2_dot T (fst tiles) (snd tiles) (localIdx div T) (localIdx mod T) 0
             (totals ! unat localIdx) of
        Inl e \<Rightarrow> Inl e
      | Inr tot \<Rightarrow> Inr (totals[unat localIdx := tot]))"

text \<open>
  \<^verbatim>\<open>for (var tile = 0u; tile < (K + T - 1) / T; tile = tile + 1u) { ... }\<close>: the bound is a
  constant expression of literals, which WGSL evaluates as an abstract integer, without
  wrap-around; it is at most \<open>K\<close>.
\<close>

lemma ntiles_le: "(k + t - 1) div t \<le> (k::nat)"
proof (cases "t = 0")
  case True
  then show ?thesis by simp
next
  case False
  have kt: "k \<le> k * t" using False by (cases t) simp_all
  have "Suc k * t = t + k * t" by simp
  then have "k + t - 1 < Suc k * t" using False kt by linarith
  then have "(k + t - 1) div t < Suc k" by (rule less_mult_imp_div_less)
  then show ?thesis by simp
qed

lemma u32_succ_nat:
  assumes "unat (i::u32) < n" and "n \<le> unat (K::u32)"
  shows "unat (i + 1) = Suc (unat i)"
proof -
  have "unat K < 4294967296" by (rule u32_bound)
  then have "unat i + unat (1::u32) < 4294967296" using assms by simp
  then have "unat (i + 1) = unat i + unat (1::u32)" by (rule u32_add)
  then show ?thesis by simp
qed

function matmul2_tiles ::
  "u32 \<Rightarrow> u32 \<Rightarrow> 'a::{plus,times} list \<Rightarrow> 'a list \<Rightarrow> u32 \<times> u32 \<Rightarrow> u32 list \<Rightarrow> u32 \<Rightarrow>
   ('a list \<times> 'a list) \<times> 'a list \<Rightarrow> error + ('a list \<times> 'a list) \<times> 'a list" where
  "matmul2_tiles K T A B groupID ls tile st =
     (if unat tile < (unat K + unat T - 1) div unat T then
        (case for_lanes (matmul2_load K T A B groupID tile) (fst st) ls of
           Inl e \<Rightarrow> Inl e
         | Inr tiles \<Rightarrow>
            (case for_lanes (matmul2_accumulate T tiles) (snd st) ls of
               Inl e \<Rightarrow> Inl e
             | Inr totals \<Rightarrow> matmul2_tiles K T A B groupID ls (tile + 1) (tiles, totals)))
      else Inr st)"
  by pat_completeness auto
termination
  by (relation "measure (\<lambda>(K, T, A, B, groupID, ls, tile, st).
        (unat K + unat T - 1) div unat T - unat tile)")
     (auto simp: u32_succ_nat [OF _ ntiles_le])

declare matmul2_tiles.simps [simp del]

text \<open>
  After the loop: \<^verbatim>\<open>if (row >= M || col >= N) { return; } C[row * N + col] = total;\<close>
\<close>

definition matmul2_store ::
  "u32 \<Rightarrow> u32 \<Rightarrow> u32 \<Rightarrow> nat \<Rightarrow> u32 \<times> u32 \<Rightarrow> 'a list \<Rightarrow> 'a stores \<Rightarrow> u32 \<Rightarrow> error + 'a stores" where
  "matmul2_store M N T nC groupID totals out localIdx =
     (let loadRow = localIdx div T; loadCol = localIdx mod T;
          row = fst groupID * T + loadRow; col = snd groupID * T + loadCol
      in if row \<ge> M \<or> col \<ge> N then Inr out
         else (case store BufC nC (row * N + col) (totals ! unat localIdx) of
                 Inl e \<Rightarrow> Inl e
               | Inr w \<Rightarrow> Inr (out @ w)))"

text \<open>
  A workgroup of \<open>nLanes\<close> lanes (the product of the components of \<^verbatim>\<open>{{workgroupSize}}\<close>)
  with \<^verbatim>\<open>workgroup_id\<close> \<open>groupID\<close>. The tiles have \<^verbatim>\<open>T * T\<close> elements. A tile size of 0 makes
  \<^verbatim>\<open>localIdx / 0\<close> a division by a zero constant, which WGSL rejects.
\<close>

definition matmul2_workgroup ::
  "u32 \<Rightarrow> u32 \<Rightarrow> u32 \<Rightarrow> u32 \<Rightarrow> nat \<Rightarrow> 'a::{zero,plus,times} list \<Rightarrow> 'a list \<Rightarrow> nat \<Rightarrow> u32 \<times> u32 \<Rightarrow>
   error + 'a stores" where
  "matmul2_workgroup M K N T nLanes A B nC groupID =
     (if T = 0 then Inl DivisionByZero
      else
        (case matmul2_tiles K T A B groupID (lanes nLanes) 0
                ((replicate (unat T * unat T) 0, replicate (unat T * unat T) 0),
                 replicate nLanes 0) of
           Inl e \<Rightarrow> Inl e
         | Inr st \<Rightarrow> for_lanes (matmul2_store M N T nC groupID (snd st)) [] (lanes nLanes)))"

subsection \<open>Variant 3: register blocking (\<^verbatim>\<open>kShaderMatmul3\<close>)\<close>

text \<open>
  The literals substituted into the template, as \<^verbatim>\<open>u32\<close> values.
\<close>

record params3 =
  pM :: u32
  pK :: u32
  pN :: u32
  pBM :: u32
  pBK :: u32
  pBN :: u32
  pTM :: u32

text \<open>
  The private variables of a lane: \<^verbatim>\<open>aPtr\<close>, \<^verbatim>\<open>bPtr\<close> and the accumulators
  \<^verbatim>\<open>threadResults\<close>. The workgroup is one-dimensional, so \<^verbatim>\<open>localID.x\<close> is the lane's
  index. The state of a workgroup is the pair of tiles \<^verbatim>\<open>tileA\<close>, \<^verbatim>\<open>tileB\<close> and the list
  of the lanes' private variables.
\<close>

record 'a lane3 =
  aPtr :: u32
  bPtr :: u32
  threadResults :: "'a list"

text \<open>
  The first phase of an iteration of the outer loop, for one lane:
  \<^verbatim>\<open>tileA[loadRowA * BK + loadColA] = A[aPtr + loadRowA * K + loadColA];
  tileB[loadRowB * BK + loadColB] = B[bPtr + loadRowB * K + loadColB]; aPtr += BK; bPtr += BK;\<close>
\<close>

definition matmul3_load ::
  "params3 \<Rightarrow> 'a list \<Rightarrow> 'a list \<Rightarrow> ('a list \<times> 'a list) \<times> 'a lane3 list \<Rightarrow> u32 \<Rightarrow>
   error + ('a list \<times> 'a list) \<times> 'a lane3 list" where
  "matmul3_load p A B st localIdx =
     (let v = snd st ! unat localIdx;
          loadColA = localIdx mod pBK p; loadRowA = localIdx div pBK p;
          loadColB = localIdx mod pBK p; loadRowB = localIdx div pBK p
      in case load BufA A (aPtr v + loadRowA * pK p + loadColA) of
           Inl e \<Rightarrow> Inl e
         | Inr a \<Rightarrow>
        (case update BufTileA (fst (fst st)) (loadRowA * pBK p + loadColA) a of
           Inl e \<Rightarrow> Inl e
         | Inr tileA \<Rightarrow>
        (case load BufB B (bPtr v + loadRowB * pK p + loadColB) of
           Inl e \<Rightarrow> Inl e
         | Inr b \<Rightarrow>
        (case update BufTileB (snd (fst st)) (loadRowB * pBK p + loadColB) b of
           Inl e \<Rightarrow> Inl e
         | Inr tileB \<Rightarrow>
             Inr ((tileA, tileB),
                  (snd st)[unat localIdx := v\<lparr>aPtr := aPtr v + pBK p, bPtr := bPtr v + pBK p\<rparr>])))))"

text \<open>
  \<^verbatim>\<open>let mask = f32(threadRow * TM + resIdx < BM && threadCol < BN && threadRow * TM + resIdx < M
  && cCol * BN + threadCol < N && cRow * BM + threadRow < M);\<close>
\<close>

definition mask3 :: "params3 \<Rightarrow> u32 \<times> u32 \<Rightarrow> u32 \<Rightarrow> u32 \<Rightarrow> u32 \<Rightarrow> 'a::{zero,one}" where
  "mask3 p groupID threadRow threadCol resIdx =
     (if threadRow * pTM p + resIdx < pBM p
          \<and> threadCol < pBN p
          \<and> threadRow * pTM p + resIdx < pM p
          \<and> snd groupID * pBN p + threadCol < pN p
          \<and> fst groupID * pBM p + threadRow < pM p
      then 1 else 0)"

text \<open>
  \<^verbatim>\<open>for (var resIdx: u32 = 0; resIdx < TM; resIdx = resIdx + 1) { ...
  threadResults[resIdx] += mask * tileA[(threadRow * TM + resIdx) * BK + dotIdx] * tmp; }\<close>
\<close>

function matmul3_res ::
  "params3 \<Rightarrow> u32 \<times> u32 \<Rightarrow> 'a::{zero,one,plus,times} list \<Rightarrow> u32 \<Rightarrow> u32 \<Rightarrow> 'a \<Rightarrow> u32 \<Rightarrow> u32 \<Rightarrow>
   'a list \<Rightarrow> error + 'a list" where
  "matmul3_res p groupID tileA threadRow threadCol tmp dotIdx resIdx results =
     (if resIdx < pTM p then
        (case load BufTileA tileA ((threadRow * pTM p + resIdx) * pBK p + dotIdx) of
           Inl e \<Rightarrow> Inl e
         | Inr a \<Rightarrow>
            (case update BufRegs results resIdx
                    (results ! unat resIdx + mask3 p groupID threadRow threadCol resIdx * a * tmp) of
               Inl e \<Rightarrow> Inl e
             | Inr results' \<Rightarrow>
                 matmul3_res p groupID tileA threadRow threadCol tmp dotIdx (resIdx + 1) results'))
      else Inr results)"
  by pat_completeness auto
termination
  by (relation "measure (\<lambda>(p, groupID, tileA, threadRow, threadCol, tmp, dotIdx, resIdx, results).
        unat (pTM p) - unat resIdx)")
     (auto simp: u32_succ word_less_nat_alt)

declare matmul3_res.simps [simp del]

text \<open>
  \<^verbatim>\<open>for (var dotIdx: u32 = 0; dotIdx < BK; dotIdx = dotIdx + 1) {
  let tmp = tileB[threadCol * BK + dotIdx]; ... }\<close>
\<close>

function matmul3_dot ::
  "params3 \<Rightarrow> u32 \<times> u32 \<Rightarrow> 'a::{zero,one,plus,times} list \<times> 'a list \<Rightarrow> u32 \<Rightarrow> u32 \<Rightarrow> u32 \<Rightarrow>
   'a list \<Rightarrow> error + 'a list" where
  "matmul3_dot p groupID tiles threadRow threadCol dotIdx results =
     (if dotIdx < pBK p then
        (case load BufTileB (snd tiles) (threadCol * pBK p + dotIdx) of
           Inl e \<Rightarrow> Inl e
         | Inr tmp \<Rightarrow>
            (case matmul3_res p groupID (fst tiles) threadRow threadCol tmp dotIdx 0 results of
               Inl e \<Rightarrow> Inl e
             | Inr results' \<Rightarrow>
                 matmul3_dot p groupID tiles threadRow threadCol (dotIdx + 1) results'))
      else Inr results)"
  by pat_completeness auto
termination
  by (relation "measure (\<lambda>(p, groupID, tiles, threadRow, threadCol, dotIdx, results).
        unat (pBK p) - unat dotIdx)")
     (auto simp: u32_succ word_less_nat_alt)

declare matmul3_dot.simps [simp del]

text \<open>The second phase of an iteration of the outer loop, for one lane.\<close>

definition matmul3_accumulate ::
  "params3 \<Rightarrow> u32 \<times> u32 \<Rightarrow> 'a::{zero,one,plus,times} list \<times> 'a list \<Rightarrow> 'a lane3 list \<Rightarrow> u32 \<Rightarrow>
   error + 'a lane3 list" where
  "matmul3_accumulate p groupID tiles vars localIdx =
     (let v = vars ! unat localIdx;
          threadRow = localIdx div pBN p; threadCol = localIdx mod pBN p
      in case matmul3_dot p groupID tiles threadRow threadCol 0 (threadResults v) of
           Inl e \<Rightarrow> Inl e
         | Inr results \<Rightarrow> Inr (vars[unat localIdx := v\<lparr>threadResults := results\<rparr>]))"

text \<open>
  \<^verbatim>\<open>for (var bkIdx = 0; bkIdx < K; bkIdx += BK) { ... }\<close>: \<^verbatim>\<open>bkIdx\<close> is an \<^verbatim>\<open>i32\<close>, compared
  as a signed number and incremented with wrap-around, so the loop need not end; the
  model counts its iterations down from \<open>fuel\<close> and is \<open>None\<close> when they run out.
\<close>

fun matmul3_tiles ::
  "nat \<Rightarrow> params3 \<Rightarrow> 'a::{zero,one,plus,times} list \<Rightarrow> 'a list \<Rightarrow> u32 \<times> u32 \<Rightarrow> u32 list \<Rightarrow> u32 \<Rightarrow>
   ('a list \<times> 'a list) \<times> 'a lane3 list \<Rightarrow> (error + ('a list \<times> 'a list) \<times> 'a lane3 list) option" where
  "matmul3_tiles 0 p A B groupID ls bkIdx st = None"
| "matmul3_tiles (Suc fuel) p A B groupID ls bkIdx st =
     (if bkIdx <s pK p then
        (case for_lanes (matmul3_load p A B) st ls of
           Inl e \<Rightarrow> Some (Inl e)
         | Inr st' \<Rightarrow>
            (case for_lanes (matmul3_accumulate p groupID (fst st')) (snd st') ls of
               Inl e \<Rightarrow> Some (Inl e)
             | Inr vars \<Rightarrow> matmul3_tiles fuel p A B groupID ls (bkIdx + pBK p) (fst st', vars)))
      else Some (Inr st))"

text \<open>
  \<^verbatim>\<open>for (var resIdx: u32 = 0; resIdx < TM; resIdx = resIdx + 1) {
  C[cPtr + (threadRow * TM + resIdx) * N + threadCol] = threadResults[resIdx]; }\<close> with
  \<^verbatim>\<open>cPtr = cRow * BM * N + cCol * BN\<close>.
\<close>

definition matmul3_store_index :: "params3 \<Rightarrow> u32 \<times> u32 \<Rightarrow> u32 \<Rightarrow> u32 \<Rightarrow> u32" where
  "matmul3_store_index p groupID localIdx resIdx =
     (let cRow = fst groupID; cCol = snd groupID;
          threadRow = localIdx div pBN p; threadCol = localIdx mod pBN p;
          cPtr = cRow * pBM p * pN p + cCol * pBN p
      in cPtr + (threadRow * pTM p + resIdx) * pN p + threadCol)"

function matmul3_store ::
  "params3 \<Rightarrow> nat \<Rightarrow> u32 \<times> u32 \<Rightarrow> 'a list \<Rightarrow> u32 \<Rightarrow> u32 \<Rightarrow> 'a stores \<Rightarrow> error + 'a stores" where
  "matmul3_store p nC groupID results localIdx resIdx out =
     (if resIdx < pTM p then
        (case load BufRegs results resIdx of
           Inl e \<Rightarrow> Inl e
         | Inr v \<Rightarrow>
           (case store BufC nC (matmul3_store_index p groupID localIdx resIdx) v of
              Inl e \<Rightarrow> Inl e
            | Inr w \<Rightarrow> matmul3_store p nC groupID results localIdx (resIdx + 1) (out @ w)))
      else Inr out)"
  by pat_completeness auto
termination
  by (relation "measure (\<lambda>(p, nC, groupID, results, localIdx, resIdx, out).
        unat (pTM p) - unat resIdx)")
     (auto simp: u32_succ word_less_nat_alt)

declare matmul3_store.simps [simp del]

text \<open>
  A workgroup of \<open>nLanes\<close> lanes. \<^verbatim>\<open>BN\<close> and \<^verbatim>\<open>BK\<close> are divisors in the kernel and \<^verbatim>\<open>K\<close> is
  compared with an \<^verbatim>\<open>i32\<close>: where one of the divisors is 0 or \<^verbatim>\<open>K\<close> is no \<^verbatim>\<open>i32\<close>, WGSL
  rejects the shader.
\<close>

definition matmul3_workgroup ::
  "nat \<Rightarrow> params3 \<Rightarrow> nat \<Rightarrow> 'a::{zero,one,plus,times} list \<Rightarrow> 'a list \<Rightarrow> nat \<Rightarrow> u32 \<times> u32 \<Rightarrow>
   (error + 'a stores) option" where
  "matmul3_workgroup fuel p nLanes A B nC groupID =
     (if pBN p = 0 \<or> pBK p = 0 then Some (Inl DivisionByZero)
      else if 2147483648 \<le> pK p then Some (Inl NotRepresentable)
      else
        (let v = \<lparr>aPtr = fst groupID * pBM p * pK p,
                  bPtr = (snd groupID * pBN p) * pK p,
                  threadResults = replicate (unat (pTM p)) 0\<rparr>
         in case matmul3_tiles fuel p A B groupID (lanes nLanes) 0
                   ((replicate (unat (pBM p) * unat (pBK p)) 0,
                     replicate (unat (pBK p) * unat (pBN p)) 0),
                    replicate nLanes v) of
              None \<Rightarrow> None
            | Some (Inl e) \<Rightarrow> Some (Inl e)
            | Some (Inr st) \<Rightarrow>
                Some (for_lanes
                  (\<lambda>out localIdx.
                     matmul3_store p nC groupID (threadResults (snd st ! unat localIdx)) localIdx 0 out)
                  [] (lanes nLanes))))"

section \<open>The template engine\<close>

text \<open>
  \<^verbatim>\<open>Shape\<close>, \<^verbatim>\<open>NumType\<close>, \<^verbatim>\<open>ShaderCode\<close>, \<^verbatim>\<open>toString\<close>, \<^verbatim>\<open>replaceAll\<close> and \<^verbatim>\<open>cdiv\<close> are
  declared in \<^verbatim>\<open>gpu.h\<close>, which is not among the sources; \<^verbatim>\<open>run.cpp\<close> only calls them.
  \<^verbatim>\<open>size_t\<close> values are \<open>nat\<close> here; where the harness multiplies them the wrap-around at
  \<open>2 ^ 64\<close> is written out.
\<close>

text \<open>Modelled from the spec: \<^verbatim>\<open>Shape\<close> (gpu.h), "ordered triple of positive integers
  (extents along three axes)"; \<open>workgroupSize[0]\<close> is the first component.\<close>

type_synonym Shape = "nat \<times> nat \<times> nat"

text \<open>Modelled from the spec: \<^verbatim>\<open>NumType\<close> (gpu.h), the "tag selecting element width/format for
  generated source", and its \<^verbatim>\<open>toString\<close>, the WGSL name of the type.\<close>

datatype NumType = kf16 | kf32

fun toString_NumType :: "NumType \<Rightarrow> string" where
  "toString_NumType kf16 = ''f16''"
| "toString_NumType kf32 = ''f32''"

text \<open>Modelled from the spec: \<^verbatim>\<open>ShaderCode\<close> (gpu.h), the "pair (source text, workgroup
  Shape)" that \<^verbatim>\<open>ShaderCode{codeString, workgroupSize}\<close> builds.\<close>

record ShaderCode =
  data :: string
  workgroupSize :: Shape

text \<open>Modelled from the spec: \<^verbatim>\<open>toString\<close> (gpu.h) of a \<^verbatim>\<open>size_t\<close> and of a \<^verbatim>\<open>Shape\<close>, the
  "stringified value" of a dimension (its decimal digits) and of a workgroup shape (its
  components, separated by a comma and a space, as \<^verbatim>\<open>@workgroup_size(...)\<close> takes them).\<close>

definition digit :: "nat \<Rightarrow> char" where
  "digit d = ''0123456789'' ! d"

fun toString :: "nat \<Rightarrow> string" where
  "toString n = (if n < 10 then [digit n] else toString (n div 10) @ [digit (n mod 10)])"

declare toString.simps [simp del]

definition toString_Shape :: "Shape \<Rightarrow> string" where
  "toString_Shape s = (case s of (x, y, z) \<Rightarrow> toString x @ '', '' @ toString y @ '', '' @ toString z)"

text \<open>Modelled from the spec: \<^verbatim>\<open>replaceAll\<close> (gpu.h), the "purely textual substitution":
  \<open>replaceAll_from_to\<close> replaces every occurrence of one token, left to right, and does not
  read the inserted text again; \<open>replaceAll\<close> applies the pairs of placeholder and value in
  the order they are listed. Only the text produced is modelled. The spec also calls a
  placeholder left without a value a configuration error; whether and where gpu.h reports
  one cannot be read from \<^verbatim>\<open>run.cpp\<close>, and no property below depends on it.\<close>

fun replaceAll_from_to :: "string \<Rightarrow> string \<Rightarrow> string \<Rightarrow> string" where
  "replaceAll_from_to [] from to = []"
| "replaceAll_from_to (c # cs) from to =
     (if from \<noteq> [] \<and> prefix from (c # cs)
      then to @ replaceAll_from_to (drop (length from) (c # cs)) from to
      else c # replaceAll_from_to cs from to)"

fun replaceAll :: "string \<Rightarrow> (string \<times> string) list \<Rightarrow> string" where
  "replaceAll str [] = str"
| "replaceAll str (rep # reps) = replaceAll (replaceAll_from_to str (fst rep) (snd rep)) reps"

subsection \<open>The three templates\<close>

definition kShaderMatmul1 :: string where
  "kShaderMatmul1 =
     ''\<newline>'' @
     ''@group(0) @binding(0) var<storage, read_write> A: array<{{precision}}>;\<newline>'' @
     ''@group(0) @binding(1) var<storage, read_write> B: array<{{precision}}>;\<newline>'' @
     ''@group(0) @binding(2) var<storage, read_write> C: array<{{precision}}>;\<newline>'' @
     ''@compute @workgroup_size({{workgroupSize}})\<newline>'' @
     ''fn main(\<newline>'' @
     ''    @builtin(global_invocation_id) globalID : vec3<u32>) {\<newline>'' @
     ''    let row = globalID.x; // Use x as row makes mapping to Shape more intuitive\<newline>'' @
     ''    let col = globalID.y;\<newline>'' @
     ''    if (row >= {{M}} || col >= {{N}}) {\<newline>'' @
     ''        return;\<newline>'' @
     ''    }\<newline>'' @
     ''    var total: {{precision}} = A[row * {{K}}] * B[col * {{K}}]; // assumes size >= 1\<newline>'' @
     ''    for (var k = 1u; k < {{K}}; k = k + 1u) {\<newline>'' @
     ''        // B is stored as B^T, effectively column-major\<newline>'' @
     ''        total += A[row * {{K}} + k] * B[col * {{K}} + k];\<newline>'' @
     ''    }\<newline>'' @
     ''    C[row * {{N}} + col] = total;\<newline>'' @
     ''}\<newline>'' @
     ''''"

definition kShaderMatmul2 :: string where
  "kShaderMatmul2 =
     ''\<newline>'' @
     ''@group(0) @binding(0) var<storage, read_write> A: array<{{precision}}>;\<newline>'' @
     ''@group(0) @binding(1) var<storage, read_write> B: array<{{precision}}>;\<newline>'' @
     ''@group(0) @binding(2) var<storage, read_write> C: array<{{precision}}>;\<newline>'' @
     ''var<workgroup> As: array<{{precision}}, {{tileSize}} * {{tileSize}}>;\<newline>'' @
     ''var<workgroup> Bs: array<{{precision}}, {{tileSize}} * {{tileSize}}>;\<newline>'' @
     ''@compute @workgroup_size({{workgroupSize}})\<newline>'' @
     ''fn main(\<newline>'' @
     ''  @builtin(local_invocation_index) localIdx : u32,\<newline>'' @
     ''  @builtin(workgroup_id) groupID: vec3<u32>) {\<newline>'' @
     ''    let loadRow = localIdx /  {{tileSize}};\<newline>'' @
     ''    let loadCol = localIdx % {{tileSize}};\<newline>'' @
     ''    let row = groupID.x * {{tileSize}} + loadRow;\<newline>'' @
     ''    let col = groupID.y * {{tileSize}} + loadCol;\<newline>'' @
     ''    let aRow = groupID.x * {{tileSize}} + loadRow;\<newline>'' @
     ''    let bRow = groupID.y * {{tileSize}} + loadCol;\<newline>'' @
     ''    var total: {{precision}} = 0.0;\<newline>'' @
     ''    for (var tile = 0u;\<newline>'' @
     ''         tile < ({{K}} + {{tileSize}} - 1) / {{tileSize}};\<newline>'' @
     ''         tile = tile + 1u) {\<newline>'' @
     ''      let aCol = tile * {{tileSize}} + loadCol;\<newline>'' @
     ''      let bCol = tile * {{tileSize}} + loadRow;\<newline>'' @
     ''      // We can skip masking here *iff* tileSize is evenly\<newline>'' @
     ''      // divisible into M, K, and N dimensions\<newline>'' @
     ''      As[loadRow * {{tileSize}} + loadCol] =\<newline>'' @
     ''        A[aRow * {{K}} + aCol];\<newline>'' @
     ''        // A[aRow * {{K}} + aCol] * {{precision}}(aRow < {{M}} && aCol < {{K}}); // masked version\<newline>'' @
     ''      Bs[loadCol * {{tileSize}} + loadRow] =\<newline>'' @
     ''        B[bRow * {{K}} + bCol];\<newline>'' @
     ''        // B[bRow * {{K}} + bCol] * {{precision}}(bRow < {{N}} && bCol < {{K}}); // masked version\<newline>'' @
     ''      workgroupBarrier();\<newline>'' @
     ''      for (var k = 0u; k < {{tileSize}}; k = k + 1u) {\<newline>'' @
     ''        total += As[loadRow * {{tileSize}} + k] *\<newline>'' @
     ''                 Bs[loadCol * {{tileSize}} + k];\<newline>'' @
     ''      }\<newline>'' @
     ''      workgroupBarrier();\<newline>'' @
     ''    }\<newline>'' @
     ''    if (row >= {{M}} || col >= {{N}}) {\<newline>'' @
     ''      return;\<newline>'' @
     ''    }\<newline>'' @
     ''    C[row * {{N}} + col] = total;\<newline>'' @
     ''}\<newline>'' @
     ''''"

definition kShaderMatmul3 :: string where
  "kShaderMatmul3 =
     ''\<newline>'' @
     ''\<newline>'' @
     ''@group(0) @binding(0) var<storage, read_write> A: array<{{precision}}>;\<newline>'' @
     ''@group(0) @binding(1) var<storage, read_write> B: array<{{precision}}>;\<newline>'' @
     ''@group(0) @binding(2) var<storage, read_write> C: array<{{precision}}>;\<newline>'' @
     ''var<workgroup> tileA: array<{{precision}}, {{BM}} * {{BK}}>;\<newline>'' @
     ''var<workgroup> tileB: array<{{precision}}, {{BK}} * {{BN}}>;\<newline>'' @
     ''\<newline>'' @
     ''@compute @workgroup_size({{workgroupSize}})\<newline>'' @
     ''fn main(\<newline>'' @
     ''    @builtin(global_invocation_id) globalID : vec3<u32>,\<newline>'' @
     ''    @builtin(local_invocation_id) localID : vec3<u32>,\<newline>'' @
     ''    @builtin(local_invocation_index) localIdx : u32,\<newline>'' @
     ''    @builtin(workgroup_id) groupID : vec3<u32>) {\<newline>'' @
     ''\<newline>'' @
     ''    var threadResults: array<{{precision}}, {{TM}}>;\<newline>'' @
     ''\<newline>'' @
     ''    let cRow: u32 = groupID.x;\<newline>'' @
     ''    let cCol: u32 = groupID.y;\<newline>'' @
     ''\<newline>'' @
     ''    // Position of the first C element computed by the thread\<newline>'' @
     ''    let threadRow: u32 = localID.x / {{BN}};\<newline>'' @
     ''    let threadCol: u32 = localID.x % {{BN}};\<newline>'' @
     ''\<newline>'' @
     ''    // Value of A to cache in As\<newline>'' @
     ''    let loadColA = localID.x % {{BK}};\<newline>'' @
     ''    let loadRowA = localID.x / {{BK}};\<newline>'' @
     ''\<newline>'' @
     ''    // Value of B to cache in Bs (B is stored as B^T)\<newline>'' @
     ''    let loadColB = localID.x % {{BK}};\<newline>'' @
     ''    let loadRowB = localID.x / {{BK}};\<newline>'' @
     ''\<newline>'' @
     ''    // aPtr and bPtr are the starting positions of the tiles in A and B,\<newline>'' @
     ''    // incremented in the bkIdx loop. \<newline>'' @
     ''    // cPtr is the starting position of the tile in C which is fixed.\<newline>'' @
     ''\<newline>'' @
     ''    var aPtr = cRow * {{BM}} * {{K}};\<newline>'' @
     ''    var bPtr = (cCol * {{BN}})  // cCol corresponds to the row in B^T\<newline>'' @
     ''                * {{K}}; // K columns per row (column-major)\<newline>'' @
     ''    var cPtr = cRow * {{BM}} * {{N}} + cCol * {{BN}};\<newline>'' @
     ''\<newline>'' @
     ''    for (var bkIdx = 0; bkIdx < {{K}}; bkIdx += {{BK}}) {\<newline>'' @
     ''      tileA[loadRowA * {{BK}} + loadColA] = A[aPtr + loadRowA * {{K}} + loadColA];\<newline>'' @
     ''      tileB[loadRowB * {{BK}} + loadColB] = B[bPtr + loadRowB * {{K}} + loadColB];\<newline>'' @
     ''\<newline>'' @
     ''      aPtr += {{BK}};\<newline>'' @
     ''      bPtr += {{BK}};\<newline>'' @
     ''\<newline>'' @
     ''      workgroupBarrier();\<newline>'' @
     ''\<newline>'' @
     ''      for (var dotIdx: u32 = 0; dotIdx < {{BK}}; dotIdx = dotIdx + 1) {\<newline>'' @
     ''        let tmp = tileB[threadCol * {{BK}} + dotIdx];\<newline>'' @
     ''        for (var resIdx: u32 = 0; resIdx < {{TM}}; resIdx = resIdx + 1) {\<newline>'' @
     ''          let mask = {{precision}}(threadRow * {{TM}} + resIdx < {{BM}} \<newline>'' @
     ''                          && threadCol < {{BN}}\<newline>'' @
     ''                          && threadRow * {{TM}} + resIdx < {{M}}\<newline>'' @
     ''                          && cCol * {{BN}} + threadCol < {{N}}\<newline>'' @
     ''                          && cRow * {{BM}} + threadRow < {{M}}\<newline>'' @
     ''                          );\<newline>'' @
     ''          threadResults[resIdx] += mask * tileA[(threadRow * {{TM}} + resIdx) * {{BK}} + dotIdx] * tmp;\<newline>'' @
     ''        }\<newline>'' @
     ''      }\<newline>'' @
     ''\<newline>'' @
     ''      workgroupBarrier();\<newline>'' @
     ''\<newline>'' @
     ''    }\<newline>'' @
     ''\<newline>'' @
     ''    for (var resIdx: u32 = 0; resIdx < {{TM}}; resIdx = resIdx + 1) {\<newline>'' @
     ''      C[cPtr + (threadRow * {{TM}} + resIdx) * {{N}} + threadCol] = threadResults[resIdx];\<newline>'' @
     ''    }\<newline>'' @
     ''    \<newline>'' @
     ''}\<newline>'' @
     ''''"

subsection \<open>\<^verbatim>\<open>createMatmul1\<close>, \<^verbatim>\<open>createMatmul2\<close>, \<^verbatim>\<open>createMatmul3\<close>\<close>

definition createMatmul1 :: "string \<Rightarrow> nat \<Rightarrow> nat \<Rightarrow> nat \<Rightarrow> Shape \<Rightarrow> NumType \<Rightarrow> ShaderCode" where
  "createMatmul1 shaderTemplate M K N wgSize precision =
     \<lparr>data = replaceAll shaderTemplate
        [(''{{workgroupSize}}'', toString_Shape wgSize),
         (''{{precision}}'', toString_NumType precision),
         (''{{M}}'', toString M),
         (''{{K}}'', toString K),
         (''{{N}}'', toString N)],
      workgroupSize = wgSize\<rparr>"

text \<open>
  \<^verbatim>\<open>static_cast<size_t>(sqrt(workgroupSize[0]))\<close>. The component is a \<^verbatim>\<open>size_t\<close> and \<^verbatim>\<open>sqrt\<close>
  works on \<^verbatim>\<open>double\<close>, so three steps happen: the integer is converted to the nearest
  \<^verbatim>\<open>double\<close> (53 significant bits, ties to the even neighbour), \<^verbatim>\<open>sqrt\<close> returns the
  \<^verbatim>\<open>double\<close> nearest to the real square root (IEEE 754), and the cast drops the fraction.

  \<open>bit_length x\<close> is the number of binary digits of \<open>x\<close>. \<open>to_double x\<close> is the value of the
  \<^verbatim>\<open>double\<close> that \<open>x\<close> converts to, a whole number: \<open>x\<close> with the digits below the leading 53
  rounded away. \<open>floor_sqrt\<close> is the integer square root, computed two binary digits of
  the argument at a time. \<open>sqrt_double d\<close> is the \<^verbatim>\<open>double\<close> \<^verbatim>\<open>sqrt\<close> returns for the whole
  number \<open>d\<close>, as a pair \<open>(n, s)\<close> that stands for \<open>n / 2 ^ s\<close>: the root lies between \<open>2 ^ k\<close>
  and \<open>2 ^ (k + 1)\<close> for \<open>k = (bit_length d - 1) div 2\<close>, so its 53 digits are the integer
  nearest to the root of \<open>d * 4 ^ s\<close> for \<open>s = 52 - k\<close>; the root of a whole number is never
  half-way between two integers. This is the model for \<open>d < 2 ^ 106\<close>, which covers every
  \<^verbatim>\<open>size_t\<close>. \<open>static_cast_size_t\<close> is the whole part of \<open>n / 2 ^ s\<close>.
\<close>

fun bit_length :: "nat \<Rightarrow> nat" where
  "bit_length n = (if n = 0 then 0 else Suc (bit_length (n div 2)))"

declare bit_length.simps [simp del]

definition round_even :: "nat \<Rightarrow> nat \<Rightarrow> nat" where
  "round_even x e =
     (if 2 ^ e < 2 * (x mod 2 ^ e) \<or> (2 * (x mod 2 ^ e) = 2 ^ e \<and> odd (x div 2 ^ e))
      then x div 2 ^ e + 1 else x div 2 ^ e) * 2 ^ e"

definition to_double :: "nat \<Rightarrow> nat" where
  "to_double x = round_even x (bit_length x - 53)"

definition sqrt_step :: "nat \<Rightarrow> nat \<Rightarrow> nat" where
  "sqrt_step n r = (if (r + 1) * (r + 1) \<le> n then r + 1 else r)"

fun floor_sqrt :: "nat \<Rightarrow> nat" where
  "floor_sqrt n =
     (if n < 4 then (if n = 0 then 0 else 1) else sqrt_step n (2 * floor_sqrt (n div 4)))"

declare floor_sqrt.simps [simp del]

definition round_nearest :: "nat \<Rightarrow> nat \<Rightarrow> nat" where
  "round_nearest x n = (if n * n + n < x then n + 1 else n)"

definition sqrt_scaled :: "nat \<Rightarrow> nat \<Rightarrow> nat \<times> nat" where
  "sqrt_scaled d s = (round_nearest (d * 4 ^ s) (floor_sqrt (d * 4 ^ s)), s)"

definition sqrt_double :: "nat \<Rightarrow> nat \<times> nat" where
  "sqrt_double d = (if d = 0 then (0, 0) else sqrt_scaled d (52 - (bit_length d - 1) div 2))"

definition static_cast_size_t :: "nat \<times> nat \<Rightarrow> nat" where
  "static_cast_size_t v = fst v div 2 ^ snd v"

definition tileSize_of :: "Shape \<Rightarrow> nat" where
  "tileSize_of wgSize = static_cast_size_t (sqrt_double (to_double (fst wgSize)))"

definition createMatmul2 :: "string \<Rightarrow> nat \<Rightarrow> nat \<Rightarrow> nat \<Rightarrow> Shape \<Rightarrow> NumType \<Rightarrow> ShaderCode" where
  "createMatmul2 shaderTemplate M K N wgSize precision =
     \<lparr>data = replaceAll shaderTemplate
        [(''{{workgroupSize}}'', toString_Shape wgSize),
         (''{{precision}}'', toString_NumType precision),
         (''{{M}}'', toString M),
         (''{{K}}'', toString K),
         (''{{N}}'', toString N),
         (''{{tileSize}}'', toString (tileSize_of wgSize))],
      workgroupSize = wgSize\<rparr>"

definition createMatmul3 ::
  "string \<Rightarrow> nat \<Rightarrow> nat \<Rightarrow> nat \<Rightarrow> nat \<Rightarrow> nat \<Rightarrow> nat \<Rightarrow> nat \<Rightarrow> Shape \<Rightarrow> NumType \<Rightarrow> ShaderCode" where
  "createMatmul3 shaderTemplate M K N BM BK BN TM wgSize precision =
     \<lparr>data = replaceAll shaderTemplate
        [(''{{workgroupSize}}'', toString_Shape wgSize),
         (''{{precision}}'', toString_NumType precision),
         (''{{M}}'', toString M),
         (''{{K}}'', toString K),
         (''{{N}}'', toString N),
         (''{{BM}}'', toString BM),
         (''{{BK}}'', toString BK),
         (''{{BN}}'', toString BN),
         (''{{TM}}'', toString TM)],
      workgroupSize = wgSize\<rparr>"

section \<open>The harness: \<^verbatim>\<open>runTest\<close>\<close>

text \<open>Modelled from the spec: \<^verbatim>\<open>cdiv\<close> (gpu.h), on numbers and component-wise on shapes: the
  division that rounds up, by which "the dispatch grid is rounded up to whole workgroups".\<close>

definition cdiv :: "nat \<Rightarrow> nat \<Rightarrow> nat" where
  "cdiv n d = (n + d - 1) div d"

definition cdiv_Shape :: "Shape \<Rightarrow> Shape \<Rightarrow> Shape" where
  "cdiv_Shape tot grp =
     (case (tot, grp) of ((a, b, c), (x, y, z)) \<Rightarrow> (cdiv a x, cdiv b y, cdiv c z))"

text \<open>Modelled from the spec: \<^verbatim>\<open>Kernel\<close> (gpu.h). \<^verbatim>\<open>Kernel kernel;\<close> is the default-constructed
  value; \<^verbatim>\<open>createKernel\<close> compiles "source text, workgroup shape, ordered bindings,
  dispatch-grid shape" (the bindings are always the three tensors, and are left out).\<close>

datatype Kernel = DefaultKernel | CompiledKernel ShaderCode Shape

text \<open>
  The calls \<^verbatim>\<open>runTest\<close> makes, in program order. Logging is left out. \<open>ToCPU\<close> carries
  the byte count \<^verbatim>\<open>M * N * sizeof(float)\<close>, a \<^verbatim>\<open>size_t\<close> product, hence modulo \<open>2 ^ 64\<close>. \<open>Render\<close> records a
  call of \<^verbatim>\<open>createMatmul1\<close>, \<^verbatim>\<open>createMatmul2\<close> or \<^verbatim>\<open>createMatmul3\<close> with its result,
  \<open>NewPromise\<close> and \<open>GetFuture\<close> the construction of \<^verbatim>\<open>promises[i]\<close> and
  \<^verbatim>\<open>futures[i] = promises[i].get_future()\<close>, \<open>ClockNow\<close> a reading of the clock.
\<close>

datatype event =
    CreateContext
  | CreateTensor nat nat
  | Render nat ShaderCode
  | CreateKernel ShaderCode Shape
  | NewPromise nat
  | GetFuture nat
  | ClockNow
  | DispatchKernel Kernel nat
  | Wait nat
  | ResetCommandBuffer Kernel
  | ToCPU nat

definition nIter :: nat where
  "nIter = 4"

text \<open>The block parameters of the \<^verbatim>\<open>version == 3\<close> branch, and its dispatch grid
  \<^verbatim>\<open>{cdiv(cdiv(M, BM), TM), cdiv(N, BN), 1}\<close> as a function of them.\<close>

definition BM :: nat where "BM = 4"
definition BK :: nat where "BK = 4"
definition BN :: nat where "BN = 4"
definition TM :: nat where "TM = 1"

definition nWorkgroups3 :: "nat \<Rightarrow> nat \<Rightarrow> nat \<Rightarrow> nat \<Rightarrow> nat \<Rightarrow> Shape" where
  "nWorkgroups3 M N bm bn tm = (cdiv (cdiv M bm) tm, cdiv N bn, 1)"

text \<open>
  Which element of \<^verbatim>\<open>C\<close> a lane of variant 3 holds in \<^verbatim>\<open>threadResults[resIdx]\<close>:
  \<^verbatim>\<open>kShaderMatmul3\<close> stores it at \<^verbatim>\<open>cPtr + (threadRow * TM + resIdx) * N + threadCol\<close> with
  \<^verbatim>\<open>cPtr = cRow * BM * N + cCol * BN\<close>, \<^verbatim>\<open>threadRow = localID.x / BN\<close> and
  \<^verbatim>\<open>threadCol = localID.x % BN\<close>, that is in row \<open>cRow * BM + threadRow * TM + resIdx\<close> and
  column \<open>cCol * BN + threadCol\<close>. \<open>covered3\<close> says that some lane of some workgroup of the
  grid holds element \<open>(i, j)\<close>; a workgroup has \<^verbatim>\<open>BM * BN / TM\<close> lanes.
\<close>

definition lane3_cell :: "nat \<Rightarrow> nat \<Rightarrow> nat \<Rightarrow> nat \<times> nat \<Rightarrow> nat \<Rightarrow> nat \<Rightarrow> nat \<times> nat" where
  "lane3_cell bm bn tm grp l resIdx =
     (fst grp * bm + (l div bn) * tm + resIdx, snd grp * bn + l mod bn)"

definition covered3 :: "nat \<Rightarrow> nat \<Rightarrow> nat \<Rightarrow> nat \<Rightarrow> nat \<Rightarrow> nat \<Rightarrow> nat \<Rightarrow> bool" where
  "covered3 M N bm bn tm i j =
     (case nWorkgroups3 M N bm bn tm of (gx, gy, gz) \<Rightarrow>
        \<exists>cRow \<in> set [0..<gx]. \<exists>cCol \<in> set [0..<gy].
        \<exists>l \<in> set [0..<bm * bn div tm]. \<exists>resIdx \<in> set [0..<tm].
          lane3_cell bm bn tm (cRow, cCol) l resIdx = (i, j))"

text \<open>\<^verbatim>\<open>Kernel kernel; if (version == 1) {...} else if (version == 2) {...} else if
  (version == 3) {...}\<close>: the calls made and the kernel that results.\<close>

definition select_kernel :: "int \<Rightarrow> nat \<Rightarrow> nat \<Rightarrow> nat \<Rightarrow> event list \<times> Kernel" where
  "select_kernel version M K N =
     (if version = 1 then
        (let wgSize = (16, 16, 1);
             matmul = createMatmul1 kShaderMatmul1 M K N wgSize kf32;
             nWorkgroups = cdiv_Shape (M, N, 1) wgSize
         in ([Render 1 matmul, CreateKernel matmul nWorkgroups], CompiledKernel matmul nWorkgroups))
      else if version = 2 then
        (let tileSize = 16;
             matmul = createMatmul2 kShaderMatmul2 M K N (tileSize * tileSize, 1, 1) kf32;
             nWorkgroups = cdiv_Shape (M, N, 1) (tileSize, tileSize, 1)
         in ([Render 2 matmul, CreateKernel matmul nWorkgroups], CompiledKernel matmul nWorkgroups))
      else if version = 3 then
        (let matmul = createMatmul3 kShaderMatmul3 M K N BM BK BN TM (BM * BN div TM, 1, 1) kf32;
             nWorkgroups = nWorkgroups3 M N BM BN TM
         in ([Render 3 matmul, CreateKernel matmul nWorkgroups], CompiledKernel matmul nWorkgroups))
      else ([], DefaultKernel))"

text \<open>\<^verbatim>\<open>for (int i = 0; i < nIter; i++) { futures[i] = promises[i].get_future(); }\<close>\<close>

function get_futures :: "nat \<Rightarrow> nat \<Rightarrow> event list" where
  "get_futures i n = (if i < n then GetFuture i # get_futures (i + 1) n else [])"
  by pat_completeness auto
termination
  by (relation "measure (\<lambda>(i, n). n - i)") auto

declare get_futures.simps [simp del]

text \<open>\<^verbatim>\<open>for (int i = 0; i < nIter; i++) { dispatchKernel(ctx, kernel, promises[i]);
  wait(ctx, futures[i]); resetCommandBuffer(ctx.device, kernel); }\<close>: \<open>iteration\<close> is the
  body of the loop.\<close>

definition iteration :: "Kernel \<Rightarrow> nat \<Rightarrow> event list" where
  "iteration kern i = [DispatchKernel kern i, Wait i, ResetCommandBuffer kern]"

function dispatch_loop :: "Kernel \<Rightarrow> nat \<Rightarrow> nat \<Rightarrow> event list" where
  "dispatch_loop kern i n =
     (if i < n then iteration kern i @ dispatch_loop kern (i + 1) n else [])"
  by pat_completeness auto
termination
  by (relation "measure (\<lambda>(kern, i, n). n - i)") auto

declare dispatch_loop.simps [simp del]

definition runTest :: "int \<Rightarrow> nat \<Rightarrow> nat \<Rightarrow> nat \<Rightarrow> event list" where
  "runTest version M K N =
     (case select_kernel version M K N of (created, kern) \<Rightarrow>
        [CreateContext, CreateTensor M K, CreateTensor N K, CreateTensor M N] @
        created @
        map NewPromise [0..<nIter] @
        get_futures 0 nIter @
        [ClockNow] @
        dispatch_loop kern 0 nIter @
        [ClockNow, ToCPU (M * N * 4 mod 2 ^ 64)])"

text \<open>Modelled from the spec: what \<^verbatim>\<open>dispatchKernel\<close> and \<^verbatim>\<open>wait\<close> (gpu.h) do to the
  dispatches in flight. "Submitting a dispatch returns immediately": dispatch \<open>i\<close> is
  outstanding from its \<open>DispatchKernel\<close> on. \<^verbatim>\<open>wait\<close> is a "blocking wait on a completion
  signal": when \<open>Wait i\<close> returns, dispatch \<open>i\<close> has completed. \<open>outstanding\<close> lists the
  dispatches in flight after a sequence of calls.\<close>

fun outstanding_step :: "nat list \<Rightarrow> event \<Rightarrow> nat list" where
  "outstanding_step out (DispatchKernel kern i) = i # out"
| "outstanding_step out (Wait i) = removeAll i out"
| "outstanding_step out e = out"

definition outstanding :: "event list \<Rightarrow> nat list" where
  "outstanding evs = foldl outstanding_step [] evs"

fun creates_signal :: "event \<Rightarrow> bool" where
  "creates_signal (NewPromise i) = True"
| "creates_signal (GetFuture i) = True"
| "creates_signal e = False"

text \<open>The calls that neither submit a dispatch nor wait for one.\<close>

fun quiet :: "event \<Rightarrow> bool" where
  "quiet (DispatchKernel kern i) = False"
| "quiet (Wait i) = False"
| "quiet e = True"

subsection \<open>The reported throughput\<close>

text \<open>
  \<^verbatim>\<open>duration_cast<milliseconds>(end - start)\<close> converts the clock's tick count to whole
  milliseconds, rounding towards zero; the ticks are taken to be nanoseconds.
\<close>

definition duration_cast_milliseconds :: "int \<Rightarrow> int" where
  "duration_cast_milliseconds ns = sgn ns * (\<bar>ns\<bar> div 1000000)"

text \<open>
  The floating-point values of the throughput expression: a finite number, an infinity or
  NaN. Rounding is not modelled (a finite result is the exact quotient or product), and a
  zero is the positive zero, the only zero the expression can divide by (it comes from the
  integer count 0). Division and multiplication follow IEEE 754 on the special values.
\<close>

datatype fp = Finite real | PosInf | NegInf | NaN

fun fp_neg :: "fp \<Rightarrow> fp" where
  "fp_neg (Finite x) = Finite (- x)"
| "fp_neg PosInf = NegInf"
| "fp_neg NegInf = PosInf"
| "fp_neg NaN = NaN"

fun fp_div :: "fp \<Rightarrow> fp \<Rightarrow> fp" where
  "fp_div NaN y = NaN"
| "fp_div x NaN = NaN"
| "fp_div (Finite x) (Finite y) =
     (if y \<noteq> 0 then Finite (x / y)
      else if x = 0 then NaN else if 0 < x then PosInf else NegInf)"
| "fp_div (Finite x) PosInf = Finite 0"
| "fp_div (Finite x) NegInf = Finite 0"
| "fp_div PosInf (Finite y) = (if 0 \<le> y then PosInf else NegInf)"
| "fp_div NegInf (Finite y) = (if 0 \<le> y then NegInf else PosInf)"
| "fp_div PosInf y = NaN"
| "fp_div NegInf y = NaN"

fun fp_mul :: "fp \<Rightarrow> fp \<Rightarrow> fp" where
  "fp_mul NaN y = NaN"
| "fp_mul x NaN = NaN"
| "fp_mul (Finite x) (Finite y) = Finite (x * y)"
| "fp_mul (Finite x) y = (if x = 0 then NaN else if 0 < x then y else fp_neg y)"
| "fp_mul x (Finite y) = (if y = 0 then NaN else if 0 < y then x else fp_neg x)"
| "fp_mul PosInf y = y"
| "fp_mul NegInf y = fp_neg y"

fun is_finite :: "fp \<Rightarrow> bool" where
  "is_finite (Finite x) = True"
| "is_finite x = False"

text \<open>
  \<^verbatim>\<open>float gflops = 2 * M * N * K / (static_cast<float>(duration.count()) / 1000.0) /
  1000000000.0 * static_cast<float>(nIter);\<close> The product \<^verbatim>\<open>2 * M * N * K\<close> is computed
  in \<^verbatim>\<open>size_t\<close>, modulo \<open>2 ^ 64\<close>, before it is converted.
\<close>

definition gflops :: "nat \<Rightarrow> nat \<Rightarrow> nat \<Rightarrow> int \<Rightarrow> fp" where
  "gflops M K N count =
     fp_mul
       (fp_div
          (fp_div (Finite (real (2 * M * N * K mod 2 ^ 64)))
                  (fp_div (Finite (real_of_int count)) (Finite 1000)))
          (Finite 1000000000))
       (Finite (real nIter))"

section \<open>Notions used in the proofs\<close>

text \<open>
  The configurations of variant 2 in which the tile size divides the three dimensions and
  the workgroup lies in the grid; the tile of a row-major matrix with \<open>k\<close> columns that
  starts at \<open>(row0, col0)\<close>; and the index of the transposed position within a tile.
\<close>

definition tiled2 :: "u32 \<Rightarrow> u32 \<Rightarrow> u32 \<Rightarrow> u32 \<Rightarrow> u32 \<times> u32 \<Rightarrow> bool" where
  "tiled2 M K N T groupID \<longleftrightarrow>
     0 < unat T \<and> unat T dvd unat M \<and> unat T dvd unat K \<and> unat T dvd unat N \<and>
     unat (fst groupID) < unat M div unat T \<and> unat (snd groupID) < unat N div unat T \<and>
     unat M * unat K < 4294967296 \<and> unat N * unat K < 4294967296 \<and>
     unat M * unat N < 4294967296"

definition tile_of :: "'a list \<Rightarrow> nat \<Rightarrow> nat \<Rightarrow> nat \<Rightarrow> nat \<Rightarrow> 'a list" where
  "tile_of X k t row0 col0 = map (\<lambda>q. X ! ((row0 + q div t) * k + (col0 + q mod t))) [0..<t * t]"

definition transpose_index :: "nat \<Rightarrow> nat \<Rightarrow> nat" where
  "transpose_index t q = (q mod t) * t + q div t"

section \<open>Properties\<close>

subsection \<open>Variant 1 computes the transposed product (C3)\<close>

lemma u32_index:
  assumes "unat r < m" "unat c < k" "m * k < 4294967296" "unat K = k"
  shows "unat (r * K + c :: u32) = unat r * k + unat c"
proof -
  have le: "unat r * k + unat c < m * k"
  proof -
    have "unat r * k + unat c < unat r * k + k" using assms(2) by simp
    also have "\<dots> = Suc (unat r) * k" by simp
    also have "\<dots> \<le> m * k" using assms(1) by (intro mult_le_mono1) simp
    finally show ?thesis .
  qed
  have "unat r * unat K < 4294967296" using le assms(3,4) by simp
  then have 1: "unat (r * K) = unat r * unat K" by (rule u32_mul)
  have "unat (r * K) + unat c < 4294967296" using 1 le assms(3,4) by simp
  then have "unat (r * K + c) = unat (r * K) + unat c" by (rule u32_add)
  then show ?thesis using 1 assms(4) by simp
qed

lemma matmul1_loop_fold:
  fixes A B :: "'a::{plus,times} list"
  assumes "row < M" "col < N"
    and "length A = unat M * unat K" "length B = unat N * unat K"
    and "unat M * unat K < 4294967296" "unat N * unat K < 4294967296"
  shows "unat K - unat k = n \<Longrightarrow> matmul1_loop K A B row col k tot =
     Inr (foldl (\<lambda>t j. t + A ! (unat row * unat K + j) * B ! (unat col * unat K + j))
            tot [unat k..<unat K])"
proof (induction n arbitrary: k tot)
  case 0
  then have "\<not> k < K" by (simp add: word_less_nat_alt)
  moreover have "unat K \<le> unat k" using 0 by simp
  ultimately show ?case by (subst matmul1_loop.simps) simp
next
  case (Suc n)
  then have kK: "k < K" by (simp add: word_less_nat_alt)
  then have lt: "unat k < unat K" by (simp add: word_less_nat_alt)
  have r: "unat row < unat M" and c: "unat col < unat N"
    using assms(1,2) by (simp_all add: word_less_nat_alt)
  have ia: "unat (row * K + k) = unat row * unat K + unat k"
    using u32_index [OF r lt assms(5)] by simp
  have ib: "unat (col * K + k) = unat col * unat K + unat k"
    using u32_index [OF c lt assms(6)] by simp
  have "unat row * unat K + unat k < Suc (unat row) * unat K" using lt by simp
  also have "\<dots> \<le> unat M * unat K" using r by (intro mult_le_mono1) simp
  finally have la: "load BufA A (row * K + k) = Inr (A ! (unat row * unat K + unat k))"
    using assms(3) ia by (simp add: load_def)
  have "unat col * unat K + unat k < Suc (unat col) * unat K" using lt by simp
  also have "\<dots> \<le> unat N * unat K" using c by (intro mult_le_mono1) simp
  finally have lb: "load BufB B (col * K + k) = Inr (B ! (unat col * unat K + unat k))"
    using assms(4) ib by (simp add: load_def)
  have sk: "unat (k + 1) = Suc (unat k)" using kK by (rule u32_succ)
  have "unat K - unat (k + 1) = n" using Suc.prems sk by simp
  note IH = Suc.IH [OF this]
  have "matmul1_loop K A B row col k tot =
        matmul1_loop K A B row col (k + 1)
          (tot + A ! (unat row * unat K + unat k) * B ! (unat col * unat K + unat k))"
    using kK la lb by (subst matmul1_loop.simps) simp
  also have "\<dots> = Inr (foldl (\<lambda>t j. t + A ! (unat row * unat K + j) * B ! (unat col * unat K + j))
            tot [unat k..<unat K])"
    using lt by (simp only: IH sk upt_conv_Cons foldl_Cons)
  finally show ?case .
qed

text \<open>
  In a type where addition is associative and commutative with unit 0, accumulating in
  program order gives the sum.
\<close>

lemma foldl_accumulate_sum:
  fixes g :: "nat \<Rightarrow> 'a::comm_monoid_add"
  shows "foldl (\<lambda>t j. t + g j) a [m..<n] = a + sum g {m..<n}"
proof (induction n)
  case 0
  show ?case by simp
next
  case (Suc n)
  show ?case
  proof (cases "m \<le> n")
    case True
    then show ?thesis using Suc by (simp add: add.assoc)
  next
    case False
    then show ?thesis by simp
  qed
qed

text \<open>
  C3. Let the kernel be generated for \<open>K \<ge> 1\<close>, with \<^verbatim>\<open>A\<close> of \<open>M * K\<close> and \<^verbatim>\<open>B\<close> of
  \<open>N * K\<close> elements and \<^verbatim>\<open>C\<close> of \<open>M * N\<close>, all three extents being \<^verbatim>\<open>u32\<close> values (a
  WGSL array is indexed by \<^verbatim>\<open>u32\<close>). A lane whose row is \<open>\<ge> M\<close> or whose column is \<open>\<ge> N\<close>
  stores nothing. Every other lane makes no out-of-range access and stores exactly once,
  at index \<open>row * N + col\<close>, the products \<open>A[row * K + k] * B[col * K + k]\<close> for \<open>k\<close> from 0 to
  \<open>K - 1\<close> added up in program order: it starts from the product for \<open>k = 0\<close> and adds the
  others one after the other. \<^verbatim>\<open>B\<close> is read in its transposed, \<open>N \<times> K\<close> row-major layout.
  Nothing is assumed of \<open>+\<close> and \<open>*\<close>, so the statement holds of the \<^verbatim>\<open>f32\<close> operations with
  their rounding; by \<open>foldl_accumulate_sum\<close> the value is the sum where addition is exact.
\<close>

theorem matmul1_main_correct:
  fixes A B :: "'a::{plus,times} list"
  assumes "1 \<le> unat K"
    and "length A = unat M * unat K" "length B = unat N * unat K" "nC = unat M * unat N"
    and "unat M * unat K < 4294967296" "unat N * unat K < 4294967296"
    and "unat M * unat N < 4294967296"
  shows "matmul1_main M K N A B nC (row, col) =
     (if row \<ge> M \<or> col \<ge> N then Inr []
      else Inr [(unat row * unat N + unat col,
                 foldl (\<lambda>t k. t + A ! (unat row * unat K + k) * B ! (unat col * unat K + k))
                   (A ! (unat row * unat K) * B ! (unat col * unat K))
                   [1..<unat K])])"
proof (cases "row \<ge> M \<or> col \<ge> N")
  case True
  then show ?thesis by (simp add: matmul1_main_def)
next
  case False
  then have rM: "row < M" and cN: "col < N" by (simp_all add: not_le)
  have r: "unat row < unat M" and c: "unat col < unat N"
    using rM cN by (simp_all add: word_less_nat_alt)
  have K0: "0 < unat K" using assms(1) by simp
  have ia: "unat (row * K + 0) = unat row * unat K + unat (0::u32)"
    using u32_index [OF r _ assms(5), of 0 K] K0 by simp
  have ib: "unat (col * K + 0) = unat col * unat K + unat (0::u32)"
    using u32_index [OF c _ assms(6), of 0 K] K0 by simp
  have "unat row * unat K < Suc (unat row) * unat K" using K0 by simp
  also have "\<dots> \<le> unat M * unat K" using r by (intro mult_le_mono1) simp
  finally have la: "load BufA A (row * K) = Inr (A ! (unat row * unat K))"
    using assms(2) ia by (simp add: load_def)
  have "unat col * unat K < Suc (unat col) * unat K" using K0 by simp
  also have "\<dots> \<le> unat N * unat K" using c by (intro mult_le_mono1) simp
  finally have lb: "load BufB B (col * K) = Inr (B ! (unat col * unat K))"
    using assms(3) ib by (simp add: load_def)
  have loop: "matmul1_loop K A B row col 1 (A ! (unat row * unat K) * B ! (unat col * unat K)) =
      Inr (foldl (\<lambda>t k. t + A ! (unat row * unat K + k) * B ! (unat col * unat K + k))
             (A ! (unat row * unat K) * B ! (unat col * unat K)) [1..<unat K])"
    using matmul1_loop_fold [OF rM cN assms(2,3,5,6) refl, of 1] by simp
  have ic: "unat (row * N + col) = unat row * unat N + unat col"
    using u32_index [OF r c assms(7)] by simp
  have "unat row * unat N + unat col < Suc (unat row) * unat N" using c by simp
  also have "\<dots> \<le> unat M * unat N" using r by (intro mult_le_mono1) simp
  finally have st: "unat (row * N + col) < nC" using ic assms(4) by simp
  show ?thesis using False la lb loop st ic
    by (simp add: matmul1_main_def store_def)
qed

theorem matmul1_main_correct_witness:
  "matmul1_main 2 3 2 [1, 2, 3, 4, 5, 6 :: int] [5, 6, 7, 8, 9, 10] 4 (1, 0) = Inr [(2, 92)] \<and>
   matmul1_main 2 3 2 [1, 2, 3, 4, 5, 6 :: int] [5, 6, 7, 8, 9, 10] 4 (2, 0) = Inr []"
proof -
  have u: "[Suc 0..<3] = [1, 2::nat]" by (simp add: upt_conv_Cons)
  have "matmul1_main 2 3 2 [1, 2, 3, 4, 5, 6 :: int] [5, 6, 7, 8, 9, 10] 4 (1, 0) = Inr [(2, 92)]"
    by (subst matmul1_main_correct) (simp_all add: u word_le_nat_alt)
  moreover have "matmul1_main 2 3 2 [1, 2, 3, 4, 5, 6 :: int] [5, 6, 7, 8, 9, 10] 4 (2, 0) = Inr []"
    by (subst matmul1_main_correct) (simp_all add: word_le_nat_alt)
  ultimately show ?thesis by simp
qed

subsection \<open>The dispatch grid of variant 3 (C4)\<close>

lemma cdiv_one: "cdiv n 1 = n"
  by (simp add: cdiv_def)

lemma div_less_cdiv:
  assumes "1 \<le> d" "i < n"
  shows "i div d < cdiv n d"
proof -
  have "i + d \<le> n + d - 1" using assms by simp
  then have "(i + d) div d \<le> (n + d - 1) div d" by (rule div_le_mono)
  moreover have "(i + d) div d = i div d + 1" using assms by simp
  ultimately show ?thesis by (simp add: cdiv_def)
qed

text \<open>\<open>cdiv n d\<close> is the ceiling of \<open>n / d\<close>: the least number of blocks of \<open>d\<close> that hold \<open>n\<close>.\<close>

lemma cdiv_ceiling:
  assumes "0 < d"
  shows "n \<le> cdiv n d * d \<and> (\<forall>q. n \<le> q * d \<longrightarrow> cdiv n d \<le> q)"
proof -
  have "(n + d - 1) mod d < d" using assms by simp
  moreover have "(n + d - 1) div d * d + (n + d - 1) mod d = n + d - 1" by simp
  ultimately have 1: "n \<le> cdiv n d * d" unfolding cdiv_def by linarith
  have 2: "cdiv n d \<le> q" if "n \<le> q * d" for q
  proof -
    have "n + d - 1 < Suc q * d" using that assms by simp
    then have "(n + d - 1) div d < Suc q" using assms by (simp only: div_less_iff_less_mult)
    then show ?thesis by (simp add: cdiv_def)
  qed
  show ?thesis using 1 2 by blast
qed

text \<open>
  With one row per lane and any block sizes \<open>bm, bn \<ge> 1\<close>, every element \<open>(i, j)\<close> of the
  \<open>M \<times> N\<close> matrix belongs to some lane of some workgroup of the grid.
\<close>

lemma nWorkgroups3_covers_tm1:
  assumes "1 \<le> bm" and "1 \<le> bn" and "i < M" and "j < N"
  shows "covered3 M N bm bn 1 i j"
proof -
  let ?l = "(i mod bm) * bn + j mod bn"
  have r: "i div bm < cdiv M bm" using assms(1,3) by (rule div_less_cdiv)
  have c: "j div bn < cdiv N bn" using assms(2,4) by (rule div_less_cdiv)
  have jb: "j mod bn < bn" using assms(2) by simp
  have "?l < (i mod bm) * bn + bn" using jb by simp
  also have "\<dots> = Suc (i mod bm) * bn" by simp
  also have "\<dots> \<le> bm * bn" using assms(1) by (intro mult_le_mono1) (simp add: Suc_le_eq)
  finally have l: "?l < bm * bn" .
  have ld: "?l div bn = i mod bm" using jb by simp
  have lm: "?l mod bn = j mod bn" by simp
  have cell: "lane3_cell bm bn 1 (i div bm, j div bn) ?l 0 = (i, j)"
    unfolding lane3_cell_def ld lm by simp
  have m1: "i div bm \<in> set [0..<cdiv (cdiv M bm) 1]" using r unfolding cdiv_one by simp
  have m2: "j div bn \<in> set [0..<cdiv N bn]" using c by simp
  have m3: "?l \<in> set [0..<bm * bn div 1]" using l by simp
  have m4: "0 \<in> set [0..<1::nat]" by simp
  show "covered3 M N bm bn 1 i j"
    unfolding covered3_def nWorkgroups3_def prod.case
    by (rule bexI [OF _ m1], rule bexI [OF _ m2], rule bexI [OF _ m3], rule bexI [OF _ m4])
      (rule cell)
qed

text \<open>
  C4. For every \<open>M\<close> and \<open>N\<close>, the grid \<^verbatim>\<open>{cdiv(cdiv(M, BM), TM), cdiv(N, BN), 1}\<close> that
  \<^verbatim>\<open>runTest\<close> dispatches for variant 3, with its block parameters \<open>BM = BN = 4\<close> and
  \<open>TM = 1\<close>, has \<open>cdiv M BM\<close> workgroup rows and \<open>cdiv N BN\<close> workgroup columns, and every
  element \<open>(i, j)\<close> of the \<open>M \<times> N\<close> matrix \<^verbatim>\<open>C\<close> belongs to some lane of some workgroup of the
  grid, each workgroup holding one \<open>BM \<times> BN\<close> block and each lane \<open>TM\<close> rows of it.
\<close>

theorem nWorkgroups3_covers:
  assumes "i < M" and "j < N"
  shows "covered3 M N BM BN TM i j \<and>
         nWorkgroups3 M N BM BN TM = (cdiv M BM, cdiv N BN, 1)"
proof -
  have "covered3 M N BM BN 1 i j"
    using _ _ assms by (rule nWorkgroups3_covers_tm1) (simp_all add: BM_def BN_def)
  then show ?thesis by (simp add: TM_def nWorkgroups3_def cdiv_def)
qed

theorem nWorkgroups3_covers_witness:
  "(4::nat) < 5 \<and> (5::nat) < 6 \<and>
   covered3 5 6 BM BN TM 4 5 \<and> nWorkgroups3 5 6 BM BN TM = (2, 2, 1)"
proof -
  have h: "(4::nat) < 5" "(5::nat) < 6" by simp_all
  have "covered3 5 6 BM BN TM 4 5" by (rule nWorkgroups3_covers [OF h, THEN conjunct1])
  moreover have "nWorkgroups3 5 6 BM BN TM = (2, 2, 1)"
    using nWorkgroups3_covers [OF h, THEN conjunct2] by (simp add: cdiv_def BM_def BN_def)
  ultimately show ?thesis using h by simp
qed

text \<open>
  The block parameters are constants of \<^verbatim>\<open>runTest\<close>. The grid expression relies on
  \<open>TM = 1\<close>: a workgroup of \<^verbatim>\<open>BM * BN / TM\<close> lanes holds \<open>BM\<close> rows whatever \<open>TM\<close> is, so
  dividing the number of block rows by \<open>TM\<close> would leave rows without a workgroup for any
  other value, as for \<open>M = 16\<close>, \<open>BM = BN = 4\<close>, \<open>TM = 2\<close>.
\<close>

lemma nWorkgroups3_other_tm:
  "fst (nWorkgroups3 16 4 4 4 2) = 2 \<and> cdiv 16 4 = 4 \<and> \<not> covered3 16 4 4 4 2 15 0"
  by code_simp

subsection \<open>The tile size of variant 2 (C7)\<close>

lemma bit_length_bounds:
  "0 < n \<Longrightarrow> 2 ^ (bit_length n - 1) \<le> n \<and> n < 2 ^ bit_length n"
proof (induction n rule: bit_length.induct)
  case (1 n)
  show ?case
  proof (cases "n div 2 = 0")
    case True
    then have "n = 1" using 1(2) by (simp add: div_eq_0_iff) 
    then show ?thesis by (simp add: bit_length.simps)
  next
    case False
    then have "2 ^ (bit_length (n div 2) - 1) \<le> n div 2 \<and> n div 2 < 2 ^ bit_length (n div 2)"
      using 1 by simp
    moreover have "bit_length n = Suc (bit_length (n div 2))"
      using 1(2) by (subst bit_length.simps) simp
    moreover have "0 < bit_length (n div 2)"
      using False by (subst bit_length.simps) simp
    ultimately show ?thesis
      by (cases "bit_length (n div 2)") auto
  qed
qed

lemma square_le_cancel:
  fixes a b :: nat
  assumes "a * a < b * b" shows "a < b"
proof (rule ccontr)
  assume "\<not> a < b"
  then have "b \<le> a" by simp
  then have "b * b \<le> a * a" by (intro mult_le_mono)
  then show False using assms by simp
qed

lemma floor_sqrt_bounds:
  "floor_sqrt n * floor_sqrt n \<le> n \<and> n < (floor_sqrt n + 1) * (floor_sqrt n + 1)"
proof (induction n rule: floor_sqrt.induct)
  case (1 n)
  show ?case
  proof (cases "n < 4")
    case True
    then show ?thesis by (subst (1 2 3 4) floor_sqrt.simps) auto
  next
    case False
    define q where "q = floor_sqrt (n div 4)"
    have IH: "q * q \<le> n div 4" "n div 4 < (q + 1) * (q + 1)"
      using 1 False unfolding q_def by simp_all
    have lo: "(2 * q) * (2 * q) \<le> n" using IH(1) by (simp add: algebra_simps)
    have "n div 4 + 1 \<le> (q + 1) * (q + 1)" using IH(2) by simp
    then have hi: "n < (2 * q + 2) * (2 * q + 2)" by (simp add: algebra_simps)
    have e: "floor_sqrt n = sqrt_step n (2 * q)"
      using False unfolding q_def by (subst floor_sqrt.simps) simp
    show ?thesis unfolding e sqrt_step_def using lo hi by (simp add: algebra_simps)
  qed
qed

lemma floor_sqrt_unique:
  assumes "m * m \<le> n" and "n < (m + 1) * (m + 1)"
  shows "floor_sqrt n = m"
proof -
  let ?s = "floor_sqrt n"
  have "?s * ?s < (m + 1) * (m + 1)" using floor_sqrt_bounds [of n] assms(2) by simp
  then have "?s < m + 1" by (rule square_le_cancel)
  moreover have "m * m < (?s + 1) * (?s + 1)" using floor_sqrt_bounds [of n] assms(1) by simp
  then have "m < ?s + 1" by (rule square_le_cancel)
  ultimately show ?thesis by simp
qed

lemma to_double_exact:
  assumes "x < 2 ^ 53" shows "to_double x = x"
proof -
  have "bit_length x \<le> 53"
  proof (cases "x = 0")
    case True then show ?thesis by (simp add: bit_length.simps)
  next
    case False
    then have "(2::nat) ^ (bit_length x - 1) \<le> x" using bit_length_bounds [of x] by simp
    then have "(2::nat) ^ (bit_length x - 1) < 2 ^ 53" using assms by (rule le_less_trans)
    then have "bit_length x - 1 < 53" by (simp only: power_strict_increasing_iff) 
    then show ?thesis by simp
  qed
  then show ?thesis by (simp add: to_double_def round_even_def)
qed

lemma sqrt_scaled_floor:
  assumes m: "m * m \<le> d" "d < (m + 1) * (m + 1)" and S: "m + 1 < 2 ^ s"
  shows "static_cast_size_t (sqrt_scaled d s) = m"
proof -
  define S :: nat where "S = 2 ^ s"
  define D where "D = d * 4 ^ s"
  define n0 where "n0 = floor_sqrt D"
  have S0: "0 < S" by (simp add: S_def)
  have mS: "m + 1 < S" using S by (simp add: S_def)
  have "(4::nat) ^ s = (2 * 2) ^ s" by simp
  also have "\<dots> = S * S" unfolding S_def by (rule power_mult_distrib)
  finally have D: "D = d * (S * S)" by (simp add: D_def)
  have n0: "n0 * n0 \<le> D" "D < (n0 + 1) * (n0 + 1)"
    using floor_sqrt_bounds [of D] by (simp_all add: n0_def)
  have "(m * m) * (S * S) \<le> d * (S * S)" using m(1) by (rule mult_le_mono1)
  then have lo2: "(m * S) * (m * S) \<le> D" by (simp add: D mult_ac)
  have "d + 1 \<le> (m + 1) * (m + 1)" using m(2) by simp
  then have h: "(d + 1) * (S * S) \<le> ((m + 1) * (m + 1)) * (S * S)" by (rule mult_le_mono1)
  have h1: "(d + 1) * (S * S) = D + S * S" by (simp add: D add_mult_distrib)
  have h2: "((m + 1) * (m + 1)) * (S * S) = ((m + 1) * S) * ((m + 1) * S)"
    by (simp only: mult_ac)
  have hi2: "D + S * S \<le> ((m + 1) * S) * ((m + 1) * S)" using h unfolding h1 h2 .
  have "(m * S) * (m * S) < (n0 + 1) * (n0 + 1)" using lo2 n0(2) by simp
  then have "m * S < n0 + 1" by (rule square_le_cancel)
  then have lo: "m * S \<le> n0" by simp
  have "n0 * n0 < ((m + 1) * S) * ((m + 1) * S)" using n0(1) hi2 S0 
    by (meson add_lessD1 le_less_trans less_add_same_cancel1 mult_pos_pos not_le order_trans)
  then have hi: "n0 < (m + 1) * S" by (rule square_le_cancel)
  have r: "round_nearest D n0 < (m + 1) * S"
  proof (rule ccontr)
    assume a: "\<not> round_nearest D n0 < (m + 1) * S"
    then have up: "n0 * n0 + n0 < D" and e: "n0 + 1 = (m + 1) * S"
      using hi by (auto simp add: round_nearest_def split: if_splits)
    have "D + S * S \<le> (n0 + 1) * (n0 + 1)" using hi2 unfolding e .
    then have "n0 * n0 + n0 + S * S < n0 * n0 + 2 * n0 + 1" using up by (simp add: algebra_simps)
    then have "S * S < (m + 1) * S" using e by simp
    then have "S < m + 1" by (simp only: mult_less_cancel2)
    then show False using mS by simp
  qed
  have r2: "m * S \<le> round_nearest D n0" using lo by (simp add: round_nearest_def)
  have "round_nearest D n0 div S = m"
    by (rule div_nat_eqI) (use r r2 in \<open>simp_all add: mult.commute\<close>)
  then show ?thesis
    by (simp add: static_cast_size_t_def sqrt_scaled_def D_def [symmetric] n0_def [symmetric] S_def)
qed

lemma sqrt_double_floor:
  assumes "d < 2 ^ 52"
  shows "static_cast_size_t (sqrt_double d) = floor_sqrt d"
proof (cases "d = 0")
  case True
  then show ?thesis by (simp add: sqrt_double_def static_cast_size_t_def floor_sqrt.simps)
next
  case False
  define b where "b = bit_length d"
  define k where "k = (b - 1) div 2"
  define m where "m = floor_sqrt d"
  have bb: "2 ^ (b - 1) \<le> d" "d < 2 ^ b"
    using bit_length_bounds [of d] False by (simp_all add: b_def)
  have "2 * k \<le> b - 1" by (simp add: k_def)
  then have "(2::nat) ^ (2 * k) \<le> 2 ^ (b - 1)" by (intro power_increasing) simp_all
  then have "(2::nat) ^ (2 * k) \<le> d" using bb(1) by (rule le_trans)
  then have "(2::nat) ^ (2 * k) < 2 ^ 52" using assms by (rule le_less_trans)
  then have "2 * k < 52" by (simp only: power_strict_increasing_iff)
  then have k: "k \<le> 25" by simp
  have "b - 1 < 2 * (k + 1)" unfolding k_def by simp 
  then have "b \<le> 2 * (k + 1)" by simp
  then have "(2::nat) ^ b \<le> 2 ^ (2 * (k + 1))" by (intro power_increasing) simp_all
  also have "(2::nat) ^ (2 * (k + 1)) = 2 ^ (k + 1) * 2 ^ (k + 1)"
    by (simp only: mult_2 power_add)
  finally have d4: "d < 2 ^ (k + 1) * 2 ^ (k + 1)"
    using bb(2) by (rule less_le_trans [rotated])
  have m: "m * m \<le> d" "d < (m + 1) * (m + 1)"
    using floor_sqrt_bounds [of d] by (simp_all add: m_def)
  have "m * m < 2 ^ (k + 1) * 2 ^ (k + 1)" using m(1) d4 by simp
  then have "m < 2 ^ (k + 1)" by (rule square_le_cancel)
  then have "m + 1 \<le> 2 ^ (k + 1)" by simp
  also have "(2::nat) ^ (k + 1) < 2 ^ (52 - k)"
    using k by (simp only: power_strict_increasing_iff)
  finally have S: "m + 1 < 2 ^ (52 - k)" .
  have "static_cast_size_t (sqrt_scaled d (52 - k)) = m" using m S by (rule sqrt_scaled_floor)
  then show ?thesis using False by (simp add: sqrt_double_def b_def k_def m_def)
qed

lemma tileSize_of_floor:
  assumes "x < 2 ^ 52"
  shows "tileSize_of (x, y, z) = floor_sqrt x"
proof -
  have "x < 2 ^ 53" using assms by simp
  then have "to_double x = x" by (rule to_double_exact)
  then show ?thesis using sqrt_double_floor [OF assms] by (simp add: tileSize_of_def)
qed

text \<open>
  C7, as amended. For a workgroup shape \<open>(x, y, z)\<close> with \<open>x\<close> below \<open>2 ^ 52\<close>, the tile size
  \<open>T\<close> substituted for \<^verbatim>\<open>{{tileSize}}\<close> is the integer square root of the first component:
  \<open>T * T \<le> x < (T + 1) * (T + 1)\<close>. For a shape \<open>(t * t, 1, 1)\<close>, as \<^verbatim>\<open>runTest\<close> passes, it is
  \<open>t\<close>, the square root of the lane count.
\<close>

theorem tileSize_of_first_component:
  assumes "x < 2 ^ 52"
  shows "tileSize_of (x, y, z) * tileSize_of (x, y, z) \<le> x \<and>
         x < (tileSize_of (x, y, z) + 1) * (tileSize_of (x, y, z) + 1) \<and>
         (x = t * t \<longrightarrow>
            tileSize_of (x, 1, 1) = t \<and>
            tileSize_of (x, 1, 1) * tileSize_of (x, 1, 1) = x * 1 * 1)"
proof -
  have a: "tileSize_of (x, y, z) = floor_sqrt x" by (rule tileSize_of_floor [OF assms])
  have b: "tileSize_of (x, 1, 1) = floor_sqrt x" by (rule tileSize_of_floor [OF assms])
  have c: "x = t * t \<longrightarrow> floor_sqrt x = t" by (auto intro: floor_sqrt_unique)
  show ?thesis unfolding a b using floor_sqrt_bounds [of x] c by auto
qed

theorem tileSize_of_first_component_witness:
  "(256::nat) < 2 ^ 52 \<and> (256::nat) = 16 * 16 \<and> tileSize_of (256, 1, 1) = 16 \<and>
   tileSize_of (256, 1, 1) * tileSize_of (256, 1, 1) = 256 * 1 * 1"
  using tileSize_of_first_component [of 256 1 1 16] by simp

text \<open>
  The other two components do not enter, and the root is rounded down: the shape
  \<open>(16, 16, 1)\<close> has 256 lanes and gets tile size 4, the shape \<open>(8, 1, 1)\<close> has 8 lanes and
  gets tile size 2.
\<close>

theorem tileSize_of_counterexample:
  "tileSize_of (16, 16, 1) = 4 \<and>
   tileSize_of (16, 16, 1) * tileSize_of (16, 16, 1) \<noteq> 16 * 16 * 1 \<and>
   tileSize_of (8, 1, 1) = 2 \<and>
   tileSize_of (8, 1, 1) * tileSize_of (8, 1, 1) \<noteq> 8 * 1 * 1"
  by (simp add: tileSize_of_def static_cast_size_t_def sqrt_double_def to_double_def
      round_even_def sqrt_scaled_def round_nearest_def sqrt_step_def
      bit_length.simps floor_sqrt.simps)

text \<open>
  Beyond \<open>2 ^ 52\<close> the rounding of the \<^verbatim>\<open>double\<close> shows. The first component
  \<open>2 ^ 52 + 2 ^ 27\<close> gets tile size \<open>2 ^ 26 + 1\<close>, one more than its
  integer square root, because \<^verbatim>\<open>sqrt\<close> rounds the root up to a whole number; \<open>2 ^ 54 - 1\<close>
  is first converted to \<open>2 ^ 54\<close> and gets \<open>2 ^ 27\<close>.
\<close>

lemma tileSize_of_rounding:
  "tileSize_of (4503599761588224, 1, 1) = 67108865 \<and>
   (4503599761588224::nat) < 67108865 * 67108865 \<and>
   tileSize_of (18014398509481983, 1, 1) = 134217728 \<and>
   (18014398509481983::nat) < 134217728 * 134217728"
  by (simp add: tileSize_of_def static_cast_size_t_def sqrt_double_def to_double_def
      round_even_def sqrt_scaled_def round_nearest_def sqrt_step_def
      bit_length.simps floor_sqrt.simps)

subsection \<open>The throughput when the clock shows no millisecond (C10)\<close>

text \<open>
  C10. When the \<^verbatim>\<open>nIter\<close> dispatches take less than a millisecond, the elapsed time in whole
  milliseconds is 0, the throughput expression divides by zero, and the reported value is
  not a finite number: it is \<open>+\<infinity>\<close>, or NaN when \<^verbatim>\<open>2 * M * N * K\<close> is 0 in \<^verbatim>\<open>size_t\<close>.
\<close>

theorem gflops_not_finite:
  assumes "0 \<le> ns" and "ns < 1000000"
  shows "duration_cast_milliseconds ns = 0 \<and>
         gflops M K N (duration_cast_milliseconds ns) =
           (if 2 * M * N * K mod 2 ^ 64 = 0 then NaN else PosInf) \<and>
         \<not> is_finite (gflops M K N (duration_cast_milliseconds ns))"
proof -
  have d: "duration_cast_milliseconds ns = 0"
    using assms by (simp add: duration_cast_milliseconds_def)
  have g: "gflops M K N 0 = (if 2 * M * N * K mod 2 ^ 64 = 0 then NaN else PosInf)"
    by (simp add: gflops_def nIter_def)
  show ?thesis unfolding d g by simp
qed

theorem gflops_not_finite_witness:
  "(0::int) \<le> 999999 \<and> (999999::int) < 1000000 \<and>
   duration_cast_milliseconds 999999 = 0 \<and>
   gflops 256 128 512 (duration_cast_milliseconds 999999) = PosInf \<and>
   gflops 0 128 512 (duration_cast_milliseconds 999999) = NaN"
proof -
  have h: "(0::int) \<le> 999999" "(999999::int) < 1000000" by simp_all
  note t = gflops_not_finite [OF h]
  have d: "duration_cast_milliseconds 999999 = 0"
    by (rule t [THEN conjunct1])
  have "gflops 256 128 512 (duration_cast_milliseconds 999999) =
        (if 2 * 256 * 512 * 128 mod 2 ^ 64 = (0::nat) then NaN else PosInf)"
    by (rule t [THEN conjunct2, THEN conjunct1])
  then have g1: "gflops 256 128 512 (duration_cast_milliseconds 999999) = PosInf"
    by simp
  have "gflops 0 128 512 (duration_cast_milliseconds 999999) =
        (if 2 * 0 * 512 * 128 mod 2 ^ 64 = (0::nat) then NaN else PosInf)"
    by (rule t [THEN conjunct2, THEN conjunct1])
  then have g2: "gflops 0 128 512 (duration_cast_milliseconds 999999) = NaN"
    by simp
  show ?thesis by (intro conjI h d g1 g2)
qed

subsection \<open>Source generation is a function of its parameters (C6)\<close>

text \<open>
  C6. Two invocations of \<^verbatim>\<open>createMatmul1\<close>, of \<^verbatim>\<open>createMatmul2\<close> or of \<^verbatim>\<open>createMatmul3\<close>
  with the same template, dimensions, tiling parameters, workgroup shape and precision
  give the same source text: the functions read nothing but their arguments.
\<close>

theorem createMatmul_deterministic:
  assumes "t = t'" and "M = M'" and "K = K'" and "N = N'" and "wgSize = wgSize'"
    and "precision = precision'" and "bm = bm'" and "bk = bk'" and "bn = bn'" and "tm = tm'"
  shows "data (createMatmul1 t M K N wgSize precision) =
           data (createMatmul1 t' M' K' N' wgSize' precision') \<and>
         data (createMatmul2 t M K N wgSize precision) =
           data (createMatmul2 t' M' K' N' wgSize' precision') \<and>
         data (createMatmul3 t M K N bm bk bn tm wgSize precision) =
           data (createMatmul3 t' M' K' N' bm' bk' bn' tm' wgSize' precision')"
  using assms by simp

theorem createMatmul_deterministic_witness:
  "data (createMatmul1 (''{{M}}x'' @ ''{{K}}'') 16 4 8 (16, 16, 1) kf32) =
     data (createMatmul1 ''{{M}}x{{K}}'' (8 + 8) (2 * 2) (2 ^ 3) (4 * 4, 16, 1) kf32) \<and>
   data (createMatmul2 (''{{M}}x'' @ ''{{K}}'') 16 4 8 (16, 16, 1) kf32) =
     data (createMatmul2 ''{{M}}x{{K}}'' (8 + 8) (2 * 2) (2 ^ 3) (4 * 4, 16, 1) kf32) \<and>
   data (createMatmul3 (''{{M}}x'' @ ''{{K}}'') 16 4 8 4 4 4 1 (16, 16, 1) kf32) =
     data (createMatmul3 ''{{M}}x{{K}}'' (8 + 8) (2 * 2) (2 ^ 3) (2 + 2) 4 4 1 (4 * 4, 16, 1) kf32)"
  by (rule createMatmul_deterministic) simp_all

subsection \<open>The timing loop (C8, C9)\<close>

lemma get_futures_eq: "n - i = d \<Longrightarrow> get_futures i n = map GetFuture [i..<n]"
proof (induction d arbitrary: i)
  case 0
  then show ?case by (subst get_futures.simps) simp
next
  case (Suc d)
  then have "i < n" and "n - (i + 1) = d" by simp_all
  then show ?case using Suc.IH [of "i + 1"]
    by (subst get_futures.simps) (simp add: upt_conv_Cons)
qed

lemma dispatch_loop_eq:
  "n - i = d \<Longrightarrow> dispatch_loop kern i n =
     concat (map (iteration kern) [i..<n])"
proof (induction d arbitrary: i)
  case 0
  then show ?case by (subst dispatch_loop.simps) simp
next
  case (Suc d)
  then have "i < n" and "n - (i + 1) = d" by simp_all
  then show ?case using Suc.IH [of "i + 1"]
    by (subst dispatch_loop.simps) (simp add: upt_conv_Cons)
qed

lemma select_kernel_cases:
  "select_kernel version M K N = ([], DefaultKernel) \<or>
   (\<exists>v code grid. select_kernel version M K N =
      ([Render v code, CreateKernel code grid], CompiledKernel code grid))"
  by (simp add: select_kernel_def Let_def nWorkgroups3_def cdiv_Shape_def)

lemma foldl_quiet: "list_all quiet evs \<Longrightarrow> foldl outstanding_step out evs = out"
proof (induction evs arbitrary: out)
  case Nil
  then show ?case by simp
next
  case (Cons e evs)
  then show ?case by (cases e) simp_all
qed

lemma loop_outstanding:
  "foldl outstanding_step [] (concat (map (iteration kern) is)) = []"
  by (induction "is") (simp_all add: iteration_def)

lemma loop_prefix_outstanding:
  "length (foldl outstanding_step []
     (take m (concat (map (iteration kern) is)))) \<le> 1"
proof (induction "is" arbitrary: m)
  case Nil
  then show ?case by simp
next
  case (Cons i "is")
  consider "m = 0" | "m = 1" | "m = 2" | k where "m = Suc (Suc (Suc k))"
    by (metis One_nat_def Suc_1 not0_implies_Suc)
  then show ?case
  proof cases
    case 4
    then show ?thesis using Cons.IH [of k] by (simp add: iteration_def)
  qed (simp_all add: iteration_def)
qed


lemma foldl_quiet_take: "list_all quiet evs \<Longrightarrow> foldl outstanding_step out (take m evs) = out"
  by (rule foldl_quiet) (simp add: list_all_iff, meson in_set_takeD)

lemma runTest_shape:
  "runTest version M K N =
     ([CreateContext, CreateTensor M K, CreateTensor N K, CreateTensor M N] @
      fst (select_kernel version M K N) @
      map NewPromise [0..<nIter] @ map GetFuture [0..<nIter] @ [ClockNow]) @
     concat (map (iteration (snd (select_kernel version M K N))) [0..<nIter]) @
     [ClockNow, ToCPU (M * N * 4 mod 2 ^ 64)]"
  by (simp add: runTest_def split_beta get_futures_eq [OF refl] dispatch_loop_eq [OF refl])

lemma setup_quiet:
  "list_all quiet ([CreateContext, CreateTensor M K, CreateTensor N K, CreateTensor M N] @
      fst (select_kernel version M K N) @
      map NewPromise [0..<n] @ map GetFuture [0..<n] @ [ClockNow])"
  using select_kernel_cases [of version M K N] by (auto simp: list_all_iff)

lemma outstanding_prefix:
  assumes "list_all quiet pre" and "list_all quiet post"
  shows "length (outstanding (take m (pre @ concat (map (iteration kern) is) @ post))) \<le> 1"
proof -
  let ?loop = "concat (map (iteration kern) is)"
  have "outstanding (take m (pre @ ?loop @ post)) =
        foldl outstanding_step
          (foldl outstanding_step (foldl outstanding_step [] (take m pre))
             (take (m - length pre) ?loop))
          (take (m - length pre - length ?loop) post)"
    by (simp add: outstanding_def)
  also have "\<dots> = foldl outstanding_step [] (take (m - length pre) ?loop)"
    using assms by (simp add: foldl_quiet_take)
  finally show ?thesis using loop_prefix_outstanding by simp
qed

lemma outstanding_all:
  assumes "list_all quiet pre" and "list_all quiet post"
  shows "outstanding (pre @ concat (map (iteration kern) is) @ post) = []"
  using assms by (simp add: outstanding_def foldl_quiet loop_outstanding)

text \<open>
  C8, as amended. \<^verbatim>\<open>runTest\<close> creates the \<^verbatim>\<open>nIter\<close> = 4 completion signals before the timed
  loop: the promises, then their futures. Between the two readings of the clock it then
  makes exactly twelve calls: for \<open>i\<close> = 0, 1, 2, 3 in turn it submits the kernel against
  signal \<open>i\<close>, waits for signal \<open>i\<close> and resets the command buffer, and creates no signal.
  What precedes the signals is the setup and, for versions 1 to 3, the rendering and
  compilation of the kernel. After every prefix of the calls at most one dispatch is
  outstanding, and none is at the end.
\<close>

theorem runTest_sequential:
  "(case select_kernel version M K N of (created, kern) \<Rightarrow>
      runTest version M K N =
        [CreateContext, CreateTensor M K, CreateTensor N K, CreateTensor M N] @ created @
        [NewPromise 0, NewPromise 1, NewPromise 2, NewPromise 3,
         GetFuture 0, GetFuture 1, GetFuture 2, GetFuture 3,
         ClockNow,
         DispatchKernel kern 0, Wait 0, ResetCommandBuffer kern,
         DispatchKernel kern 1, Wait 1, ResetCommandBuffer kern,
         DispatchKernel kern 2, Wait 2, ResetCommandBuffer kern,
         DispatchKernel kern 3, Wait 3, ResetCommandBuffer kern,
         ClockNow, ToCPU (M * N * 4 mod 2 ^ 64)] \<and>
      (created = [] \<or>
       (\<exists>v code grid. created = [Render v code, CreateKernel code grid]))) \<and>
   (\<forall>m. length (outstanding (take m (runTest version M K N))) \<le> 1) \<and>
   outstanding (runTest version M K N) = []"
proof -
  have post: "list_all quiet [ClockNow, ToCPU (M * N * 4 mod 2 ^ 64)]" by simp
  have a: "length (outstanding (take m (runTest version M K N))) \<le> 1" for m
    unfolding runTest_shape by (rule outstanding_prefix [OF setup_quiet post])
  have b: "outstanding (runTest version M K N) = []"
    unfolding runTest_shape by (rule outstanding_all [OF setup_quiet post])
  have u: "[0..<4] = [0, 1, 2, 3::nat]" by (simp add: upt_conv_Cons)
  obtain created kern where sk: "select_kernel version M K N = (created, kern)"
    by (cases "select_kernel version M K N")
  have c: "created = [] \<or> (\<exists>v code grid. created = [Render v code, CreateKernel code grid])"
    using select_kernel_cases [of version M K N] sk by auto
  have d: "runTest version M K N =
        [CreateContext, CreateTensor M K, CreateTensor N K, CreateTensor M N] @ created @
        [NewPromise 0, NewPromise 1, NewPromise 2, NewPromise 3,
         GetFuture 0, GetFuture 1, GetFuture 2, GetFuture 3,
         ClockNow,
         DispatchKernel kern 0, Wait 0, ResetCommandBuffer kern,
         DispatchKernel kern 1, Wait 1, ResetCommandBuffer kern,
         DispatchKernel kern 2, Wait 2, ResetCommandBuffer kern,
         DispatchKernel kern 3, Wait 3, ResetCommandBuffer kern,
         ClockNow, ToCPU (M * N * 4 mod 2 ^ 64)]"
    by (simp add: runTest_def sk nIter_def dispatch_loop.simps get_futures.simps iteration_def u)
  show ?thesis unfolding sk prod.case using a b c d by blast
qed

text \<open>
  The calls of \<^verbatim>\<open>runTest\<close> for version 0 and \<open>M = K = N = 1\<close>: the eight calls that create
  the signals come before the first reading of the clock, and from that reading on no
  call creates a signal.
\<close>

theorem runTest_sequential_counterexample:
  "runTest 0 1 1 1 =
     [CreateContext, CreateTensor 1 1, CreateTensor 1 1, CreateTensor 1 1,
      NewPromise 0, NewPromise 1, NewPromise 2, NewPromise 3,
      GetFuture 0, GetFuture 1, GetFuture 2, GetFuture 3,
      ClockNow,
      DispatchKernel DefaultKernel 0, Wait 0, ResetCommandBuffer DefaultKernel,
      DispatchKernel DefaultKernel 1, Wait 1, ResetCommandBuffer DefaultKernel,
      DispatchKernel DefaultKernel 2, Wait 2, ResetCommandBuffer DefaultKernel,
      DispatchKernel DefaultKernel 3, Wait 3, ResetCommandBuffer DefaultKernel,
      ClockNow, ToCPU 4] \<and>
   filter creates_signal (dropWhile (\<lambda>e. e \<noteq> ClockNow) (runTest 0 1 1 1)) = []"
proof -
  have u: "[0..<4] = [0, 1, 2, 3::nat]" by (simp add: upt_conv_Cons)
  show ?thesis
    by (simp add: runTest_def select_kernel_def nIter_def dispatch_loop.simps
        get_futures.simps iteration_def u)
qed

text \<open>
  C9. For a \<^verbatim>\<open>version\<close> other than 1, 2 and 3 no \<^verbatim>\<open>createMatmul\<close> function and no
  \<^verbatim>\<open>createKernel\<close> is called, the kernel stays the default-constructed one, and the timing
  loop dispatches it \<^verbatim>\<open>nIter\<close> times all the same.
\<close>

theorem runTest_unchecked_version:
  assumes "version \<noteq> 1" and "version \<noteq> 2" and "version \<noteq> 3"
  shows "select_kernel version M K N = ([], DefaultKernel) \<and>
    runTest version M K N =
     [CreateContext, CreateTensor M K, CreateTensor N K, CreateTensor M N,
      NewPromise 0, NewPromise 1, NewPromise 2, NewPromise 3,
      GetFuture 0, GetFuture 1, GetFuture 2, GetFuture 3,
      ClockNow,
      DispatchKernel DefaultKernel 0, Wait 0, ResetCommandBuffer DefaultKernel,
      DispatchKernel DefaultKernel 1, Wait 1, ResetCommandBuffer DefaultKernel,
      DispatchKernel DefaultKernel 2, Wait 2, ResetCommandBuffer DefaultKernel,
      DispatchKernel DefaultKernel 3, Wait 3, ResetCommandBuffer DefaultKernel,
      ClockNow, ToCPU (M * N * 4 mod 2 ^ 64)]"
proof -
  have s: "select_kernel version M K N = ([], DefaultKernel)"
    using assms by (simp add: select_kernel_def)
  have u: "[0..<4] = [0, 1, 2, 3::nat]" by (simp add: upt_conv_Cons)
  show ?thesis
    by (simp add: s runTest_def nIter_def dispatch_loop.simps get_futures.simps iteration_def u)
qed

theorem runTest_unchecked_version_witness:
  "(0::int) \<noteq> 1 \<and> (0::int) \<noteq> 2 \<and> (0::int) \<noteq> 3 \<and>
   select_kernel 0 16 4 8 = ([], DefaultKernel) \<and>
   filter (\<lambda>e. e = DispatchKernel DefaultKernel 0) (runTest 0 16 4 8) = [DispatchKernel DefaultKernel 0] \<and>
   length (runTest 0 16 4 8) = 27"
proof -
  have h: "(0::int) \<noteq> 1" "(0::int) \<noteq> 2" "(0::int) \<noteq> 3" by simp_all
  note t = runTest_unchecked_version [OF h, of 16 4 8]
  show ?thesis using h by (simp add: t)
qed

subsection \<open>Variant 2 where the tile size divides the dimensions (C1)\<close>

lemma for_lanes_snoc:
  "for_lanes f s (ls @ [l]) = (case for_lanes f s ls of Inl e \<Rightarrow> Inl e | Inr s' \<Rightarrow> f s' l)"
  by (induction ls arbitrary: s) (auto split: sum.splits)

lemma lanes_Suc: "lanes (Suc n) = lanes n @ [word_of_nat n]"
  by (simp add: lanes_def)

lemma unat_lane: "i < 4294967296 \<Longrightarrow> unat (word_of_nat i :: u32) = i"
  by (simp add: unat_of_nat take_bit_nat_eq_self)

text \<open>A phase in which lane \<open>i\<close> replaces element \<open>i\<close> of a list.\<close>

lemma for_lanes_pointwise:
  assumes step: "\<And>s i. i < n \<Longrightarrow> length s = n \<Longrightarrow> f s (word_of_nat i) = Inr (s[i := g i (s ! i)])"
    and len: "length s0 = n"
  shows "for_lanes f s0 (lanes n) = Inr (map (\<lambda>i. g i (s0 ! i)) [0..<n])"
proof -
  have "j \<le> n \<Longrightarrow> for_lanes f s0 (lanes j) =
          Inr (map (\<lambda>i. if i < j then g i (s0 ! i) else s0 ! i) [0..<n])" for j
  proof (induction j)
    case 0
    show ?case using len by (auto simp: lanes_def intro: nth_equalityI)
  next
    case (Suc j)
    let ?s = "map (\<lambda>i. if i < j then g i (s0 ! i) else s0 ! i) [0..<n]"
    have jn: "j < n" using Suc.prems by simp
    have "for_lanes f s0 (lanes (Suc j)) = f ?s (word_of_nat j)"
      using Suc by (simp add: lanes_Suc for_lanes_snoc)
    also have "\<dots> = Inr (?s[j := g j (?s ! j)])" using jn by (intro step) simp_all
    also have "?s[j := g j (?s ! j)] =
               map (\<lambda>i. if i < Suc j then g i (s0 ! i) else s0 ! i) [0..<n]"
      using jn by (intro nth_equalityI) (auto simp: nth_list_update less_Suc_eq)
    finally show ?case .
  qed
  from this [of n] show ?thesis by simp
qed

lemma index_bound: "r < m \<Longrightarrow> c < k \<Longrightarrow> r * k + c < m * (k::nat)"
proof -
  assume "r < m" and "c < k"
  then have "r * k + c < Suc r * k" by simp
  also have "\<dots> \<le> m * k" using \<open>r < m\<close> by (intro mult_le_mono1) simp
  finally show ?thesis .
qed

lemma block_bound: "x < m div t \<Longrightarrow> r < t \<Longrightarrow> x * t + r < (m::nat)"
proof -
  assume "x < m div t" and "r < t"
  then have "x * t + r < (m div t) * t" by (rule index_bound)
  also have "\<dots> \<le> m" by simp
  finally show ?thesis .
qed

lemma u32_block:
  assumes "unat x < unat (M::u32) div unat T" and "unat r < unat T"
  shows "unat (x * T + r :: u32) = unat x * unat T + unat r"
proof -
  have "(unat M div unat T) * unat T \<le> unat M" by simp
  also have "\<dots> < 4294967296" by (rule u32_bound)
  finally show ?thesis using u32_index [OF assms] by simp
qed

lemma tiled2_T_le:
  assumes "tiled2 M K N T groupID"
  shows "unat T \<le> unat M" and "unat T \<le> unat N" and "unat T * unat T < 4294967296"
proof -
  have "0 < unat M div unat T" and "0 < unat N div unat T"
    using assms by (auto simp: tiled2_def)
  then show 1: "unat T \<le> unat M" and 2: "unat T \<le> unat N"
    by (simp_all add: div_greater_zero_iff)
  have "unat T * unat T \<le> unat M * unat N" using 1 2 by (rule mult_le_mono)
  then show "unat T * unat T < 4294967296" using assms by (simp add: tiled2_def)
qed

lemma lane_div_mod:
  assumes "0 < unat (T::u32)" and "i < unat T * unat T" and "unat T * unat T < 4294967296"
  shows "unat (word_of_nat i div T) = i div unat T"
    and "unat (word_of_nat i mod T) = i mod unat T"
    and "i div unat T < unat T" and "i mod unat T < unat T"
proof -
  have "unat (word_of_nat i :: u32) = i" using assms(2,3) by (intro unat_lane) simp
  then show "unat (word_of_nat i div T) = i div unat T"
    and "unat (word_of_nat i mod T) = i mod unat T"
    by (simp_all add: unat_div unat_mod)
  show "i div unat T < unat T" using assms(2) by (simp add: less_mult_imp_div_less)
  show "i mod unat T < unat T" using assms(1) by simp
qed

lemma matmul2_load_step:
  fixes A B :: "'a list"
  assumes cfg: "tiled2 M K N T (gx, gy)"
    and lenA: "length A = unat M * unat K" and lenB: "length B = unat N * unat K"
    and tl: "unat tile < unat K div unat T"
    and i: "i < unat T * unat T"
    and lens: "length As = unat T * unat T" "length Bs = unat T * unat T"
  shows "matmul2_load K T A B (gx, gy) tile (As, Bs) (word_of_nat i) =
     Inr (As[i := A ! ((unat gx * unat T + i div unat T) * unat K +
                       (unat tile * unat T + i mod unat T))],
          Bs[(i mod unat T) * unat T + i div unat T :=
             B ! ((unat gy * unat T + i mod unat T) * unat K +
                  (unat tile * unat T + i div unat T))])"
proof -
  let ?l = "word_of_nat i :: u32"
  have t0: "0 < unat T" and gx: "unat gx < unat M div unat T" and gy: "unat gy < unat N div unat T"
    and mk: "unat M * unat K < 4294967296" and nk: "unat N * unat K < 4294967296"
    using cfg by (simp_all add: tiled2_def)
  note tt = tiled2_T_le(3) [OF cfg]
  note dm = lane_div_mod [OF t0 i tt]
  have r: "unat (?l div T) < unat T" and c: "unat (?l mod T) < unat T"
    using dm by simp_all
  have aRow: "unat (gx * T + ?l div T) = unat gx * unat T + i div unat T"
    using u32_block [OF gx r] dm by simp
  have aRow_lt: "unat gx * unat T + i div unat T < unat M"
    using gx dm(3) by (rule block_bound)
  have bRow: "unat (gy * T + ?l mod T) = unat gy * unat T + i mod unat T"
    using u32_block [OF gy c] dm by simp
  have bRow_lt: "unat gy * unat T + i mod unat T < unat N"
    using gy dm(4) by (rule block_bound)
  have aCol: "unat (tile * T + ?l mod T) = unat tile * unat T + i mod unat T"
    using u32_block [OF tl c] dm by simp
  have aCol_lt: "unat tile * unat T + i mod unat T < unat K"
    using tl dm(4) by (rule block_bound)
  have bCol: "unat (tile * T + ?l div T) = unat tile * unat T + i div unat T"
    using u32_block [OF tl r] dm by simp
  have bCol_lt: "unat tile * unat T + i div unat T < unat K"
    using tl dm(3) by (rule block_bound)
  have ia: "unat ((gx * T + ?l div T) * K + (tile * T + ?l mod T)) =
            (unat gx * unat T + i div unat T) * unat K + (unat tile * unat T + i mod unat T)"
    using u32_index [of "gx * T + ?l div T" "unat M" "tile * T + ?l mod T" "unat K" K]
      aRow aRow_lt aCol aCol_lt mk by simp
  have ia_lt: "(unat gx * unat T + i div unat T) * unat K + (unat tile * unat T + i mod unat T)
               < length A"
    unfolding lenA using aRow_lt aCol_lt by (rule index_bound)
  have ib: "unat ((gy * T + ?l mod T) * K + (tile * T + ?l div T)) =
            (unat gy * unat T + i mod unat T) * unat K + (unat tile * unat T + i div unat T)"
    using u32_index [of "gy * T + ?l mod T" "unat N" "tile * T + ?l div T" "unat K" K]
      bRow bRow_lt bCol bCol_lt nk by simp
  have ib_lt: "(unat gy * unat T + i mod unat T) * unat K + (unat tile * unat T + i div unat T)
               < length B"
    unfolding lenB using bRow_lt bCol_lt by (rule index_bound)
  have sa: "unat (?l div T * T + ?l mod T) = i"
    using u32_index [of "?l div T" "unat T" "?l mod T" "unat T" T] r c tt dm by simp
  have sb: "unat (?l mod T * T + ?l div T) = (i mod unat T) * unat T + i div unat T"
    using u32_index [of "?l mod T" "unat T" "?l div T" "unat T" T] r c tt dm by simp
  have sb_lt: "(i mod unat T) * unat T + i div unat T < unat T * unat T"
    using dm(4) dm(3) by (rule index_bound)
  show ?thesis
    unfolding matmul2_load_def Let_def load_def update_def fst_conv snd_conv ia ib sa sb
    using ia_lt ib_lt i sb_lt lens by simp
qed

lemma transpose_index_facts:
  assumes "0 < t" and "q < t * t"
  shows "transpose_index t q < t * t"
    and "transpose_index t q div t = q mod t"
    and "transpose_index t q mod t = q div t"
    and "transpose_index t (transpose_index t q) = q"
proof -
  have d: "q div t < t" using assms(2) by (simp add: less_mult_imp_div_less)
  have m: "q mod t < t" using assms(1) by simp
  show "transpose_index t q < t * t"
    unfolding transpose_index_def using m d by (rule index_bound)
  show 1: "transpose_index t q div t = q mod t"
    unfolding transpose_index_def using d assms(1) by simp
  show 2: "transpose_index t q mod t = q div t"
    unfolding transpose_index_def using d by simp
  show "transpose_index t (transpose_index t q) = q"
    by (subst transpose_index_def) (simp add: 1 2)
qed

lemma matmul2_load_phase:
  fixes A B :: "'a list"
  assumes cfg: "tiled2 M K N T (gx, gy)"
    and lenA: "length A = unat M * unat K" and lenB: "length B = unat N * unat K"
    and tl: "unat tile < unat K div unat T"
    and lens: "length As0 = unat T * unat T" "length Bs0 = unat T * unat T"
  shows "for_lanes (matmul2_load K T A B (gx, gy) tile) (As0, Bs0) (lanes (unat T * unat T)) =
     Inr (tile_of A (unat K) (unat T) (unat gx * unat T) (unat tile * unat T),
          tile_of B (unat K) (unat T) (unat gy * unat T) (unat tile * unat T))"
proof -
  let ?t = "unat T"
  let ?fA = "\<lambda>q. A ! ((unat gx * ?t + q div ?t) * unat K + (unat tile * ?t + q mod ?t))"
  let ?fB = "\<lambda>q. B ! ((unat gy * ?t + q div ?t) * unat K + (unat tile * ?t + q mod ?t))"
  let ?s = "transpose_index ?t"
  have t0: "0 < ?t" using cfg by (simp add: tiled2_def)
  have inv: "j \<le> ?t * ?t \<Longrightarrow>
      \<exists>As Bs. for_lanes (matmul2_load K T A B (gx, gy) tile) (As0, Bs0) (lanes j) = Inr (As, Bs) \<and>
        length As = ?t * ?t \<and> length Bs = ?t * ?t \<and>
        (\<forall>q<j. As ! q = ?fA q) \<and> (\<forall>q<?t * ?t. ?s q < j \<longrightarrow> Bs ! q = ?fB q)" for j
  proof (induction j)
    case 0
    show ?case using lens by (simp add: lanes_def)
  next
    case (Suc j)
    then have j: "j < ?t * ?t" by simp
    from Suc obtain As Bs where
      run: "for_lanes (matmul2_load K T A B (gx, gy) tile) (As0, Bs0) (lanes j) = Inr (As, Bs)"
      and la: "length As = ?t * ?t" and lb: "length Bs = ?t * ?t"
      and ia: "\<forall>q<j. As ! q = ?fA q" and ib: "\<forall>q<?t * ?t. ?s q < j \<longrightarrow> Bs ! q = ?fB q"
      by auto
    note sj = transpose_index_facts [OF t0 j]
    let ?As = "As[j := ?fA j]"
    let ?Bs = "Bs[?s j := B ! ((unat gy * ?t + j mod ?t) * unat K + (unat tile * ?t + j div ?t))]"
    have step: "for_lanes (matmul2_load K T A B (gx, gy) tile) (As0, Bs0) (lanes (Suc j)) =
                Inr (?As, ?Bs)"
      using matmul2_load_step [OF cfg lenA lenB tl j la lb]
      by (simp add: lanes_Suc for_lanes_snoc run transpose_index_def)
    have a: "\<forall>q<Suc j. ?As ! q = ?fA q"
      using ia j la by (auto simp: nth_list_update less_Suc_eq)
    have b: "\<forall>q<?t * ?t. ?s q < Suc j \<longrightarrow> ?Bs ! q = ?fB q"
    proof (intro allI impI)
      fix q assume q: "q < ?t * ?t" and sq: "?s q < Suc j"
      note sq' = transpose_index_facts [OF t0 q]
      show "?Bs ! q = ?fB q"
      proof (cases "q = ?s j")
        case True
        then show ?thesis using sj lb by (simp add: sj)
      next
        case False
        then have "?s q \<noteq> j" using sq'(4) by auto
        then have "?s q < j" using sq by simp
        then show ?thesis using ib q False by simp
      qed
    qed
    show ?case using step la lb a b by simp
  qed
  from inv [of "?t * ?t"] obtain As Bs where
    run: "for_lanes (matmul2_load K T A B (gx, gy) tile) (As0, Bs0) (lanes (?t * ?t)) = Inr (As, Bs)"
    and la: "length As = ?t * ?t" and lb: "length Bs = ?t * ?t"
    and ia: "\<forall>q<?t * ?t. As ! q = ?fA q"
    and ib: "\<forall>q<?t * ?t. ?s q < ?t * ?t \<longrightarrow> Bs ! q = ?fB q"
    by auto
  have "As = tile_of A (unat K) ?t (unat gx * ?t) (unat tile * ?t)"
    unfolding tile_of_def using la ia by (intro nth_equalityI) simp_all
  moreover have "Bs = tile_of B (unat K) ?t (unat gy * ?t) (unat tile * ?t)"
    unfolding tile_of_def using lb ib transpose_index_facts(1) [OF t0]
    by (intro nth_equalityI) simp_all
  ultimately show ?thesis using run by simp
qed

lemma matmul2_dot_fold:
  fixes As Bs :: "'a::{plus,times} list"
  assumes r: "unat loadRow < unat T" and c: "unat loadCol < unat T"
    and lens: "length As = unat T * unat T" "length Bs = unat T * unat T"
    and tt: "unat T * unat T < 4294967296"
  shows "unat T - unat k = d \<Longrightarrow> matmul2_dot T As Bs loadRow loadCol k tot =
     Inr (foldl (\<lambda>t q. t + As ! (unat loadRow * unat T + q) * Bs ! (unat loadCol * unat T + q))
            tot [unat k..<unat T])"
proof (induction d arbitrary: k tot)
  case 0
  then have "\<not> k < T" by (simp add: word_less_nat_alt)
  moreover have "unat T \<le> unat k" using 0 by simp
  ultimately show ?case by (subst matmul2_dot.simps) simp
next
  case (Suc d)
  then have kT: "k < T" by (simp add: word_less_nat_alt)
  then have lt: "unat k < unat T" by (simp add: word_less_nat_alt)
  have ia: "unat (loadRow * T + k) = unat loadRow * unat T + unat k"
    using u32_index [OF r lt tt] by simp
  have ib: "unat (loadCol * T + k) = unat loadCol * unat T + unat k"
    using u32_index [OF c lt tt] by simp
  have la: "load BufTileA As (loadRow * T + k) = Inr (As ! (unat loadRow * unat T + unat k))"
    using index_bound [OF r lt] lens ia by (simp add: load_def)
  have lb: "load BufTileB Bs (loadCol * T + k) = Inr (Bs ! (unat loadCol * unat T + unat k))"
    using index_bound [OF c lt] lens ib by (simp add: load_def)
  have sk: "unat (k + 1) = Suc (unat k)" using kT by (rule u32_succ)
  have "unat T - unat (k + 1) = d" using Suc.prems sk by simp
  note IH = Suc.IH [OF this]
  have "matmul2_dot T As Bs loadRow loadCol k tot =
        matmul2_dot T As Bs loadRow loadCol (k + 1)
          (tot + As ! (unat loadRow * unat T + unat k) * Bs ! (unat loadCol * unat T + unat k))"
    using kT la lb by (subst matmul2_dot.simps) simp
  also have "\<dots> = Inr (foldl (\<lambda>t q. t + As ! (unat loadRow * unat T + q) *
                                        Bs ! (unat loadCol * unat T + q)) tot [unat k..<unat T])"
    using lt by (simp only: IH sk upt_conv_Cons foldl_Cons)
  finally show ?case .
qed

lemma tile_of_nth:
  assumes "r < t" and "q < t"
  shows "tile_of X k t row0 col0 ! (r * t + q) = X ! ((row0 + r) * k + (col0 + q))"
proof -
  have "r * t + q < t * t" using assms by (rule index_bound)
  then show ?thesis using assms by (simp add: tile_of_def)
qed

lemma length_tile_of: "length (tile_of X k t row0 col0) = t * t"
  by (simp add: tile_of_def)

lemma matmul2_accumulate_phase:
  fixes A B :: "'a::{plus,times} list"
  assumes cfg: "tiled2 M K N T (gx, gy)"
    and len: "length totals = unat T * unat T"
  shows "for_lanes
           (matmul2_accumulate T (tile_of A (unat K) (unat T) row0 col0,
                                  tile_of B (unat K) (unat T) row1 col0))
           totals (lanes (unat T * unat T)) =
     Inr (map (\<lambda>i. foldl (\<lambda>t q. t + A ! ((row0 + i div unat T) * unat K + (col0 + q)) *
                                   B ! ((row1 + i mod unat T) * unat K + (col0 + q)))
                   (totals ! i) [0..<unat T])
            [0..<unat T * unat T])"
proof (rule for_lanes_pointwise [OF _ len])
  fix s :: "'a list" and i
  assume i: "i < unat T * unat T" and ls: "length s = unat T * unat T"
  let ?As = "tile_of A (unat K) (unat T) row0 col0"
  let ?Bs = "tile_of B (unat K) (unat T) row1 col0"
  have t0: "0 < unat T" using cfg by (simp add: tiled2_def)
  note tt = tiled2_T_le(3) [OF cfg]
  note dm = lane_div_mod [OF t0 i tt]
  have ui: "unat (word_of_nat i :: u32) = i" using i tt by (intro unat_lane) simp
  have r: "unat (word_of_nat i div T) < unat T" and c: "unat (word_of_nat i mod T) < unat T"
    using dm by simp_all
  have dot: "matmul2_dot T ?As ?Bs (word_of_nat i div T) (word_of_nat i mod T) 0 (s ! i) =
      Inr (foldl (\<lambda>t q. t + ?As ! (i div unat T * unat T + q) * ?Bs ! (i mod unat T * unat T + q))
             (s ! i) [0..<unat T])"
    using matmul2_dot_fold [OF r c length_tile_of length_tile_of tt refl, of A "unat K" row0 col0
        B "unat K" row1 col0 0 "s ! i"] dm
    by simp
  have "foldl (\<lambda>t q. t + ?As ! (i div unat T * unat T + q) * ?Bs ! (i mod unat T * unat T + q))
             (s ! i) [0..<unat T] =
        foldl (\<lambda>t q. t + A ! ((row0 + i div unat T) * unat K + (col0 + q)) *
                         B ! ((row1 + i mod unat T) * unat K + (col0 + q)))
             (s ! i) [0..<unat T]"
    using dm(3,4) by (intro foldl_cong refl) (simp add: tile_of_nth)
  then show "matmul2_accumulate T (?As, ?Bs) s (word_of_nat i) =
      Inr (s[i := foldl (\<lambda>t q. t + A ! ((row0 + i div unat T) * unat K + (col0 + q)) *
                                  B ! ((row1 + i mod unat T) * unat K + (col0 + q)))
                    (s ! i) [0..<unat T]])"
    using dot by (simp add: matmul2_accumulate_def ui)
qed

lemma ntiles_dvd:
  assumes "0 < t" and "t dvd k"
  shows "(k + t - Suc 0) div t = k div (t::nat)"
proof -
  from assms(2) obtain c where k: "k = t * c" by (auto simp: dvd_def)
  have e: "k + t - Suc 0 = t * c + (t - 1)" using assms(1) k by simp
  have a: "(t * c + (t - 1)) div t = c + (t - 1) div t"
    using assms(1) by (intro div_mult_self4) simp
  have b: "(t - 1) div t = 0" using assms(1) by simp
  show ?thesis unfolding e a b using k assms(1) by simp
qed

lemma foldl_tile_append:
  assumes "Suc b * t \<le> k"
  shows "foldl f (foldl (\<lambda>a q. f a (b * t + q)) a [0..<t]) [Suc b * t..<k] =
         foldl f a [b * t..<k]"
proof -
  have 1: "[b * t..<b * t + t] = map (\<lambda>q. b * t + q) [0..<t]"
  proof -
    have "map (\<lambda>q. b * t + q) [0..<t] = map (\<lambda>q. q + b * t) [0..<t]"
      by (simp add: add.commute)
    also have "\<dots> = [b * t..<t + b * t]" by (rule map_add_upt)
    finally show ?thesis by (simp add: add.commute)
  qed
  have 2: "[b * t..<k] = [b * t..<b * t + t] @ [b * t + t..<k]"
    using assms upt_add_eq_append [of "b * t" "b * t + t" "k - (b * t + t)"] by simp
  have 3: "Suc b * t = b * t + t" by simp
  show ?thesis by (simp only: 2 3 foldl_append 1 foldl_map)
qed

lemma matmul2_tiles_fold:
  fixes A B :: "'a::{plus,times} list"
  assumes cfg: "tiled2 M K N T (gx, gy)"
    and lenA: "length A = unat M * unat K" and lenB: "length B = unat N * unat K"
  shows "unat K div unat T - unat tile = d \<Longrightarrow>
     length As = unat T * unat T \<Longrightarrow> length Bs = unat T * unat T \<Longrightarrow>
     length totals = unat T * unat T \<Longrightarrow>
     \<exists>tiles. matmul2_tiles K T A B (gx, gy) (lanes (unat T * unat T)) tile ((As, Bs), totals) =
       Inr (tiles,
            map (\<lambda>i. foldl (\<lambda>t q. t + A ! ((unat gx * unat T + i div unat T) * unat K + q) *
                                     B ! ((unat gy * unat T + i mod unat T) * unat K + q))
                   (totals ! i) [unat tile * unat T..<unat K])
              [0..<unat T * unat T])"
proof (induction d arbitrary: tile As Bs totals)
  case 0
  have t0: "0 < unat T" and dvd: "unat T dvd unat K" using cfg by (simp_all add: tiled2_def)
  have nt: "(unat K + unat T - Suc 0) div unat T = unat K div unat T"
    using t0 dvd by (rule ntiles_dvd)
  have ge: "unat K div unat T \<le> unat tile" using 0 by simp
  then have "unat K div unat T * unat T \<le> unat tile * unat T" by (rule mult_le_mono1)
  then have "unat K \<le> unat tile * unat T" using dvd by simp
  then have "map (\<lambda>i. foldl (\<lambda>t q. t + A ! ((unat gx * unat T + i div unat T) * unat K + q) *
                                     B ! ((unat gy * unat T + i mod unat T) * unat K + q))
                   (totals ! i) [unat tile * unat T..<unat K])
              [0..<unat T * unat T] = totals"
    using 0(4) by (intro nth_equalityI) simp_all
  then show ?case using ge by (subst matmul2_tiles.simps) (simp add: nt)
next
  case (Suc d)
  let ?t = "unat T"
  let ?f = "\<lambda>i t q. t + A ! ((unat gx * ?t + i div ?t) * unat K + q) *
                        B ! ((unat gy * ?t + i mod ?t) * unat K + q)"
  have t0: "0 < ?t" and dvd: "?t dvd unat K" using cfg by (simp_all add: tiled2_def)
  have nt: "(unat K + ?t - Suc 0) div ?t = unat K div ?t"
    using t0 dvd by (rule ntiles_dvd)
  have lt: "unat tile < unat K div ?t" using Suc.prems(1) by simp
  have sk: "unat (tile + 1) = Suc (unat tile)"
    using lt by (rule u32_succ_nat [where K = K]) simp
  have up: "Suc (unat tile) * ?t \<le> unat K"
  proof -
    have "Suc (unat tile) * ?t \<le> (unat K div ?t) * ?t"
      using lt by (intro mult_le_mono1) simp
    then show ?thesis using dvd by simp
  qed
  let ?tiles = "(tile_of A (unat K) ?t (unat gx * ?t) (unat tile * ?t),
                 tile_of B (unat K) ?t (unat gy * ?t) (unat tile * ?t))"
  let ?totals = "map (\<lambda>i. foldl (\<lambda>t q. ?f i t (unat tile * ?t + q)) (totals ! i) [0..<?t])
                   [0..<?t * ?t]"
  have p1: "for_lanes (matmul2_load K T A B (gx, gy) tile) (As, Bs) (lanes (?t * ?t)) = Inr ?tiles"
    using cfg lenA lenB lt Suc.prems(2,3) by (rule matmul2_load_phase)
  have p2: "for_lanes (matmul2_accumulate T ?tiles) totals (lanes (?t * ?t)) = Inr ?totals"
    using cfg Suc.prems(4) by (rule matmul2_accumulate_phase)
  have "unat K div ?t - unat (tile + 1) = d" using Suc.prems(1) sk by simp
  from Suc.IH [OF this, of "fst ?tiles" "snd ?tiles" ?totals]
  obtain tiles where
    rec: "matmul2_tiles K T A B (gx, gy) (lanes (?t * ?t)) (tile + 1) (?tiles, ?totals) =
          Inr (tiles, map (\<lambda>i. foldl (?f i) (?totals ! i) [unat (tile + 1) * ?t..<unat K])
                        [0..<?t * ?t])"
    by (auto simp: length_tile_of)
  have "map (\<lambda>i. foldl (?f i) (?totals ! i) [unat (tile + 1) * ?t..<unat K]) [0..<?t * ?t] =
        map (\<lambda>i. foldl (?f i) (totals ! i) [unat tile * ?t..<unat K]) [0..<?t * ?t]"
  proof (intro nth_equalityI)
    fix i assume "i < length (map (\<lambda>i. foldl (?f i) (?totals ! i) [unat (tile + 1) * ?t..<unat K])
                                [0..<?t * ?t])"
    then have i: "i < ?t * ?t" by simp
    have "foldl (?f i) (foldl (\<lambda>a q. ?f i a (unat tile * ?t + q)) (totals ! i) [0..<?t])
            [Suc (unat tile) * ?t..<unat K] =
          foldl (?f i) (totals ! i) [unat tile * ?t..<unat K]"
      using up by (rule foldl_tile_append)
    then show "map (\<lambda>i. foldl (?f i) (?totals ! i) [unat (tile + 1) * ?t..<unat K])
                 [0..<?t * ?t] ! i =
               map (\<lambda>i. foldl (?f i) (totals ! i) [unat tile * ?t..<unat K]) [0..<?t * ?t] ! i"
      using i by (simp add: sk del: mult_Suc)
  qed simp
  then have "matmul2_tiles K T A B (gx, gy) (lanes (?t * ?t)) (tile + 1) (?tiles, ?totals) =
          Inr (tiles, map (\<lambda>i. foldl (?f i) (totals ! i) [unat tile * ?t..<unat K]) [0..<?t * ?t])"
    using rec by simp
  then show ?case
    using lt by (subst matmul2_tiles.simps) (simp add: nt p1 p2)
qed

lemma matmul2_store_phase:
  fixes totals :: "'a list"
  assumes cfg: "tiled2 M K N T (gx, gy)" and nC: "nC = unat M * unat N"
  shows "for_lanes (matmul2_store M N T nC (gx, gy) totals) [] (lanes (unat T * unat T)) =
     Inr (map (\<lambda>i. ((unat gx * unat T + i div unat T) * unat N + (unat gy * unat T + i mod unat T),
                     totals ! i))
            [0..<unat T * unat T])"
proof -
  let ?t = "unat T"
  let ?w = "\<lambda>i. ((unat gx * ?t + i div ?t) * unat N + (unat gy * ?t + i mod ?t), totals ! i)"
  have t0: "0 < ?t" and gx: "unat gx < unat M div ?t" and gy: "unat gy < unat N div ?t"
    and mn: "unat M * unat N < 4294967296"
    using cfg by (simp_all add: tiled2_def)
  note tt = tiled2_T_le(3) [OF cfg]
  have "j \<le> ?t * ?t \<Longrightarrow>
        for_lanes (matmul2_store M N T nC (gx, gy) totals) [] (lanes j) = Inr (map ?w [0..<j])" for j
  proof (induction j)
    case 0
    show ?case by (simp add: lanes_def)
  next
    case (Suc j)
    then have j: "j < ?t * ?t" by simp
    let ?l = "word_of_nat j :: u32"
    note dm = lane_div_mod [OF t0 j tt]
    have ul: "unat ?l = j" using j tt by (intro unat_lane) simp
    have r: "unat (?l div T) < ?t" and c: "unat (?l mod T) < ?t" using dm by simp_all
    have row: "unat (gx * T + ?l div T) = unat gx * ?t + j div ?t"
      using u32_block [OF gx r] dm by simp
    have row_lt: "unat gx * ?t + j div ?t < unat M" using gx dm(3) by (rule block_bound)
    have col: "unat (gy * T + ?l mod T) = unat gy * ?t + j mod ?t"
      using u32_block [OF gy c] dm by simp
    have col_lt: "unat gy * ?t + j mod ?t < unat N" using gy dm(4) by (rule block_bound)
    have ic: "unat ((gx * T + ?l div T) * N + (gy * T + ?l mod T)) =
              (unat gx * ?t + j div ?t) * unat N + (unat gy * ?t + j mod ?t)"
      using u32_index [of "gx * T + ?l div T" "unat M" "gy * T + ?l mod T" "unat N" N]
        row row_lt col col_lt mn by simp
    have ic_lt: "(unat gx * ?t + j div ?t) * unat N + (unat gy * ?t + j mod ?t) < nC"
      unfolding nC using row_lt col_lt by (rule index_bound)
    have inr: "\<not> (M \<le> gx * T + ?l div T \<or> N \<le> gy * T + ?l mod T)"
      using row row_lt col col_lt by (simp add: word_le_nat_alt)
    have "matmul2_store M N T nC (gx, gy) totals (map ?w [0..<j]) ?l = Inr (map ?w [0..<j] @ [?w j])"
      unfolding matmul2_store_def Let_def fst_conv snd_conv store_def ic ul
      using inr ic_lt by simp
    then show ?case using Suc by (simp add: lanes_Suc for_lanes_snoc)
  qed
  from this [of "?t * ?t"] show ?thesis by simp
qed

text \<open>
  C1, as amended. The kernel of variant 2 applies no mask. Where the tile size \<open>T \<ge> 1\<close>
  divides \<open>M\<close>, \<open>K\<close> and \<open>N\<close>, every workgroup \<open>(gx, gy)\<close> of the \<open>M / T\<close> by \<open>N / T\<close> grid, run
  with \<open>T * T\<close> lanes, makes no out-of-range access, and each lane stores exactly once, at
  index \<open>row * N + col\<close>, the products \<open>A[row * K + k] * B[col * K + k]\<close> for \<open>k\<close> from 0 to
  \<open>K - 1\<close> added in program order to an initial 0, where \<open>row = gx * T + l div T\<close> and
  \<open>col = gy * T + l mod T\<close> for lane \<open>l\<close>. (The extents of the three arrays are \<^verbatim>\<open>u32\<close>
  values.) Nothing is assumed of \<open>+\<close> and \<open>*\<close>, so the statement holds of the \<^verbatim>\<open>f32\<close>
  operations with their rounding; by \<open>foldl_accumulate_sum\<close> the value is the sum where
  addition is exact.
\<close>

theorem matmul2_workgroup_divisible:
  fixes A B :: "'a::{zero,plus,times} list"
  assumes "0 < unat T"
    and "unat T dvd unat M" and "unat T dvd unat K" and "unat T dvd unat N"
    and "unat gx < unat M div unat T" and "unat gy < unat N div unat T"
    and "length A = unat M * unat K" and "length B = unat N * unat K"
    and "nC = unat M * unat N"
    and "unat M * unat K < 4294967296" and "unat N * unat K < 4294967296"
    and "unat M * unat N < 4294967296"
  shows "matmul2_workgroup M K N T (unat T * unat T) A B nC (gx, gy) =
     Inr (map (\<lambda>l. ((unat gx * unat T + l div unat T) * unat N + (unat gy * unat T + l mod unat T),
                     foldl (\<lambda>t k. t + A ! ((unat gx * unat T + l div unat T) * unat K + k) *
                                      B ! ((unat gy * unat T + l mod unat T) * unat K + k))
                       0 [0..<unat K]))
            [0..<unat T * unat T])"
proof -
  let ?t = "unat T"
  let ?z = "replicate (?t * ?t) (0::'a)"
  let ?acc = "\<lambda>i. foldl (\<lambda>t k. t + A ! ((unat gx * ?t + i div ?t) * unat K + k) *
                                  B ! ((unat gy * ?t + i mod ?t) * unat K + k))"
  have cfg: "tiled2 M K N T (gx, gy)" using assms by (simp add: tiled2_def)
  have T: "T \<noteq> 0" using assms(1) by (simp add: unat_gt_0)
  from matmul2_tiles_fold [OF cfg assms(7,8) refl, where tile = 0 and As = ?z and Bs = ?z
      and totals = ?z]
  obtain tiles where
    "matmul2_tiles K T A B (gx, gy) (lanes (?t * ?t)) 0 ((?z, ?z), ?z) =
       Inr (tiles, map (\<lambda>i. ?acc i (?z ! i) [0..<unat K]) [0..<?t * ?t])"
    by auto
  moreover have "map (\<lambda>i. ?acc i (?z ! i) [0..<unat K]) [0..<?t * ?t] =
                 map (\<lambda>i. ?acc i 0 [0..<unat K]) [0..<?t * ?t]"
    by (intro nth_equalityI) simp_all
  ultimately have run:
    "matmul2_tiles K T A B (gx, gy) (lanes (?t * ?t)) 0 ((?z, ?z), ?z) =
       Inr (tiles, map (\<lambda>i. ?acc i 0 [0..<unat K]) [0..<?t * ?t])"
    by simp
  have "map (\<lambda>i. ((unat gx * ?t + i div ?t) * unat N + (unat gy * ?t + i mod ?t),
                   map (\<lambda>i. ?acc i 0 [0..<unat K]) [0..<?t * ?t] ! i)) [0..<?t * ?t] =
        map (\<lambda>i. ((unat gx * ?t + i div ?t) * unat N + (unat gy * ?t + i mod ?t),
                   ?acc i 0 [0..<unat K]))
          [0..<?t * ?t]"
    by (intro nth_equalityI) simp_all
  then show ?thesis
    using T run matmul2_store_phase [OF cfg assms(9), of "map (\<lambda>i. ?acc i 0 [0..<unat K]) [0..<?t * ?t]"]
    by (simp add: matmul2_workgroup_def)
qed

theorem matmul2_workgroup_divisible_witness:
  "matmul2_workgroup 4 4 4 2 (unat (2::u32) * unat (2::u32))
     [1, 2, 3, 4, 5, 6, 7, 8, 9, 10, 11, 12, 13, 14, 15, 16 :: int]
     [1, 2, 3, 4, 5, 6, 7, 8, 9, 10, 11, 12, 13, 14, 15, 16] 16 (1, 0) =
   Inr [(8, 110), (9, 278), (12, 150), (13, 382)]"
proof -
  have u: "[0..<4] = [0, 1, 2, 3::nat]" by (simp add: upt_conv_Cons)
  show ?thesis
    by (subst matmul2_workgroup_divisible) (simp_all add: u)
qed

text \<open>
  Where \<open>T\<close> does not divide the dimensions the kernel stores other values. For
  \<open>M = K = N = 3\<close> and \<open>T = 2\<close>, on integers, workgroup \<open>(0, 0)\<close> stays within the arrays and
  stores 30 at \<^verbatim>\<open>C[0]\<close>: the second tile reads \<open>A[3]\<close> and \<open>B[3]\<close>, which belong to the next
  row, as column 3 of row 0. The accumulation of the three products of row 0 of \<^verbatim>\<open>A\<close> and
  row 0 of \<^verbatim>\<open>B\<close>, and their sum, is 14.
\<close>

theorem matmul2_workgroup_counterexample:
  "matmul2_workgroup 3 3 3 2 4 [1, 2, 3, 4, 5, 6, 7, 8, 9 :: int] [1, 2, 3, 4, 5, 6, 7, 8, 9] 9 (0, 0) =
     Inr [(0, 30), (1, 60), (3, 60), (4, 126)] \<and>
   foldl (\<lambda>t k. t + [1, 2, 3, 4, 5, 6, 7, 8, 9 :: int] ! (0 * 3 + k) *
                     [1, 2, 3, 4, 5, 6, 7, 8, 9] ! (0 * 3 + k)) 0 [0, 1, 2] = 14 \<and>
   (\<Sum>k = 0..<3. [1, 2, 3, 4, 5, 6, 7, 8, 9 :: int] ! (0 * 3 + k) * [1, 2, 3, 4, 5, 6, 7, 8, 9] ! (0 * 3 + k)) = 14"
  by code_simp

subsection \<open>Variant 3 reads and writes beyond the arrays (C2)\<close>

text \<open>
  C2 does not hold of the kernel. \<^verbatim>\<open>runTest\<close> with version 3 and \<open>M = 5\<close>, \<open>K = N = 4\<close> dispatches
  a grid of 2 by 1 workgroups of 16 lanes. In workgroup \<open>(1, 0)\<close> lane 4 loads
  \<^verbatim>\<open>A[aPtr + loadRowA * K + loadColA]\<close>, which is \<open>A[20]\<close>, from an array of 20 elements, and
  its store \<^verbatim>\<open>C[cPtr + (threadRow * TM + resIdx) * N + threadCol]\<close> goes to \<open>C[20]\<close>, in an
  array of 20 elements. The mask enters the accumulation only; neither the loads nor
  the store are guarded.
\<close>

theorem matmul3_out_of_range:
  "nWorkgroups3 5 4 BM BN TM = (2, 1, 1) \<and>
   matmul3_workgroup 2 \<lparr>pM = 5, pK = 4, pN = 4, pBM = 4, pBK = 4, pBN = 4, pTM = 1\<rparr> 16
     (replicate 20 (1::int)) (replicate 16 1) 20 (1, 0) = Some (Inl (OutOfBounds BufA 20)) \<and>
   unat (matmul3_store_index \<lparr>pM = 5, pK = 4, pN = 4, pBM = 4, pBK = 4, pBN = 4, pTM = 1\<rparr>
     (1, 0) 4 0) = 20 \<and>
   \<not> 20 < 5 * (4::nat)"
  by code_simp

end
